theory Spec2Isabelle
  imports Complex_Main
begin

section \<open>JavaScript numbers\<close>

text \<open>
  A JavaScript number is an IEEE 754 binary64 value.  \<open>Fin r\<close> is the finite double whose
  value is the real number \<open>r\<close> (\<open>Fin 0\<close> is \<open>+0\<close>), \<open>NZero\<close> is \<open>-0\<close>, \<open>PInf\<close> and \<open>NInf\<close> are
  the infinities and \<open>NaN\<close> is not-a-number.  The numbers of plane coordinates, zoom
  factors and smooth iteration values are doubles.  Where the protocol says \<open>int\<close> the
  model uses \<open>nat\<close> or \<open>int\<close>: pixel sizes and tile counts are natural numbers, request
  ids and iteration limits are integers.  The fractal parameters are finite numbers and
  are kept as the real numbers they denote; the colour formula that follows the
  iteration is computed over the reals.
\<close>

datatype double = Fin real | NZero | PInf | NInf | NaN

text \<open>Rounding to the nearest integer, ties to the even one.\<close>

definition roundEven :: "real \<Rightarrow> int" where
  "roundEven y =
     (let f = \<lfloor>y\<rfloor>; r = y - real_of_int f
      in if r < 1 / 2 then f else if 1 / 2 < r then f + 1 else if even f then f else f + 1)"

text \<open>
  The binary exponent that decides the spacing of the doubles around \<open>x\<close>: the exponent
  of \<open>x\<close>, but not below \<open>-1022\<close>, where the subnormal numbers begin.
\<close>

definition expo :: "real \<Rightarrow> int" where
  "expo x = max \<lfloor>log 2 \<bar>x\<bar>\<rfloor> (- 1022)"

text \<open>
  Round to nearest, ties to even, with a significand of 53 bits: the multiple of
  \<open>2\<^bsup>expo x - 52\<^esup>\<close> nearest to \<open>x\<close>.  The exponent is not bounded above here.
\<close>

definition round64 :: "real \<Rightarrow> real" where
  "round64 x =
     (if x = 0 then 0
      else real_of_int (roundEven (x / 2 powi (expo x - 52))) * 2 powi (expo x - 52))"

text \<open>
  The double that an operation delivers for the exact result \<open>x\<close>: a rounded value of
  magnitude \<open>2\<^sup>1\<^sup>0\<^sup>2\<^sup>4\<close> or more overflows to an infinity, and a result that rounds to zero
  keeps the sign of \<open>x\<close>.
\<close>

definition ofReal :: "real \<Rightarrow> double" where
  "ofReal x =
     (let r = round64 x
      in if 2 ^ 1024 \<le> \<bar>r\<bar> then (if 0 < x then PInf else NInf)
         else if r = 0 then (if x < 0 then NZero else Fin 0)
         else Fin r)"

text \<open>An integer of the program as a number (sizes and counts are far below \<open>2\<^sup>5\<^sup>3\<close>).\<close>

definition ofNat :: "nat \<Rightarrow> double" where
  "ofNat n = Fin (real n)"

definition ofInt :: "int \<Rightarrow> double" where
  "ofInt i = Fin (real_of_int i)"

text \<open>The real value of a finite double (\<open>-0\<close> has the value 0).\<close>

fun val :: "double \<Rightarrow> real" where
  "val (Fin r) = r"
| "val NZero = 0"
| "val PInf = 0"
| "val NInf = 0"
| "val NaN = 0"

text \<open>The global function \<open>isFinite\<close>.\<close>

fun isFinite :: "double \<Rightarrow> bool" where
  "isFinite (Fin r) = True"
| "isFinite NZero = True"
| "isFinite PInf = False"
| "isFinite NInf = False"
| "isFinite NaN = False"

fun signBit :: "double \<Rightarrow> bool" where
  "signBit (Fin r) = (r < 0)"
| "signBit NZero = True"
| "signBit PInf = False"
| "signBit NInf = True"
| "signBit NaN = False"

definition signedZero :: "bool \<Rightarrow> double" where
  "signedZero negative = (if negative then NZero else Fin 0)"

definition signedInf :: "bool \<Rightarrow> double" where
  "signedInf negative = (if negative then NInf else PInf)"

text \<open>Unary minus.\<close>

fun fneg :: "double \<Rightarrow> double" where
  "fneg (Fin r) = (if r = 0 then NZero else Fin (- r))"
| "fneg NZero = Fin 0"
| "fneg PInf = NInf"
| "fneg NInf = PInf"
| "fneg NaN = NaN"

text \<open>
  \<open>a + b\<close>.  An exact sum of zero is \<open>+0\<close> unless both operands are \<open>-0\<close>.
\<close>

definition fadd :: "double \<Rightarrow> double \<Rightarrow> double" where
  "fadd a b =
     (if a = NaN \<or> b = NaN then NaN
      else if \<not> isFinite a then (if \<not> isFinite b \<and> a \<noteq> b then NaN else a)
      else if \<not> isFinite b then b
      else if val a + val b = 0 then (if a = NZero \<and> b = NZero then NZero else Fin 0)
      else ofReal (val a + val b))"

text \<open>\<open>a - b\<close>.\<close>

definition fsub :: "double \<Rightarrow> double \<Rightarrow> double" where
  "fsub a b = fadd a (fneg b)"

text \<open>\<open>a * b\<close>.\<close>

definition fmul :: "double \<Rightarrow> double \<Rightarrow> double" where
  "fmul a b =
     (if a = NaN \<or> b = NaN then NaN
      else if \<not> isFinite a \<or> \<not> isFinite b then
        (if (isFinite a \<and> val a = 0) \<or> (isFinite b \<and> val b = 0) then NaN
         else signedInf (signBit a \<noteq> signBit b))
      else if val a * val b = 0 then signedZero (signBit a \<noteq> signBit b)
      else ofReal (val a * val b))"

text \<open>\<open>a / b\<close>.\<close>

definition fdiv :: "double \<Rightarrow> double \<Rightarrow> double" where
  "fdiv a b =
     (if a = NaN \<or> b = NaN then NaN
      else if \<not> isFinite a then
        (if \<not> isFinite b then NaN else signedInf (signBit a \<noteq> signBit b))
      else if \<not> isFinite b then signedZero (signBit a \<noteq> signBit b)
      else if val b = 0 then
        (if val a = 0 then NaN else signedInf (signBit a \<noteq> signBit b))
      else if val a = 0 then signedZero (signBit a \<noteq> signBit b)
      else ofReal (val a / val b))"

text \<open>\<open>a < b\<close> and \<open>a > b\<close>: false when an operand is \<open>NaN\<close>; the two zeros are equal.\<close>

definition flt :: "double \<Rightarrow> double \<Rightarrow> bool" where
  "flt a b =
     (if a = NaN \<or> b = NaN then False
      else if a = PInf \<or> b = NInf then False
      else if a = NInf \<or> b = PInf then True
      else val a < val b)"

definition fgt :: "double \<Rightarrow> double \<Rightarrow> bool" where
  "fgt a b = flt b a"

text \<open>\<open>Math.abs\<close>.\<close>

fun Math_abs :: "double \<Rightarrow> double" where
  "Math_abs (Fin r) = Fin \<bar>r\<bar>"
| "Math_abs NZero = Fin 0"
| "Math_abs PInf = PInf"
| "Math_abs NInf = PInf"
| "Math_abs NaN = NaN"

text \<open>
  The functions of \<open>Math\<close> that ECMAScript leaves to the implementation to approximate
  are taken to be correctly rounded; their results at zeros, infinities and \<open>NaN\<close> are
  those that ECMAScript fixes.
\<close>

fun Math_log :: "double \<Rightarrow> double" where
  "Math_log (Fin r) = (if r < 0 then NaN else if r = 0 then NInf else ofReal (ln r))"
| "Math_log NZero = NInf"
| "Math_log PInf = PInf"
| "Math_log NInf = NaN"
| "Math_log NaN = NaN"

fun Math_log2 :: "double \<Rightarrow> double" where
  "Math_log2 (Fin r) = (if r < 0 then NaN else if r = 0 then NInf else ofReal (log 2 r))"
| "Math_log2 NZero = NInf"
| "Math_log2 PInf = PInf"
| "Math_log2 NInf = NaN"
| "Math_log2 NaN = NaN"

fun Math_sqrt :: "double \<Rightarrow> double" where
  "Math_sqrt (Fin r) = (if r < 0 then NaN else ofReal (sqrt r))"
| "Math_sqrt NZero = NZero"
| "Math_sqrt PInf = PInf"
| "Math_sqrt NInf = NaN"
| "Math_sqrt NaN = NaN"

fun Math_exp :: "double \<Rightarrow> double" where
  "Math_exp (Fin r) = ofReal (exp r)"
| "Math_exp NZero = Fin 1"
| "Math_exp PInf = PInf"
| "Math_exp NInf = Fin 0"
| "Math_exp NaN = NaN"

fun Math_cos :: "double \<Rightarrow> double" where
  "Math_cos (Fin r) = ofReal (cos r)"
| "Math_cos NZero = Fin 1"
| "Math_cos PInf = NaN"
| "Math_cos NInf = NaN"
| "Math_cos NaN = NaN"

fun Math_sin :: "double \<Rightarrow> double" where
  "Math_sin (Fin r) = ofReal (sin r)"
| "Math_sin NZero = NZero"
| "Math_sin PInf = NaN"
| "Math_sin NInf = NaN"
| "Math_sin NaN = NaN"

text \<open>The angle of the point \<open>(x, y)\<close> for finite \<open>x\<close> and \<open>y\<close> that are not both zero.\<close>

definition atan2 :: "real \<Rightarrow> real \<Rightarrow> real" where
  "atan2 y x =
     (if 0 < x then arctan (y / x)
      else if x < 0 then (if 0 \<le> y then arctan (y / x) + pi else arctan (y / x) - pi)
      else if 0 < y then pi / 2
      else if y < 0 then - (pi / 2)
      else 0)"

text \<open>\<open>Math.atan2(y, x)\<close>, with the cases of ECMAScript for zeros and infinities.\<close>

definition Math_atan2 :: "double \<Rightarrow> double \<Rightarrow> double" where
  "Math_atan2 y x =
     (if y = NaN \<or> x = NaN then NaN
      else if y = PInf then
        (if x = PInf then ofReal (pi / 4) else if x = NInf then ofReal (3 * pi / 4)
         else ofReal (pi / 2))
      else if y = NInf then
        (if x = PInf then ofReal (- pi / 4) else if x = NInf then ofReal (- 3 * pi / 4)
         else ofReal (- pi / 2))
      else if val y = 0 then
        (if x = PInf \<or> (isFinite x \<and> \<not> signBit x) then signedZero (signBit y)
         else if signBit y then ofReal (- pi) else ofReal pi)
      else if x = PInf then signedZero (signBit y)
      else if x = NInf then (if signBit y then ofReal (- pi) else ofReal pi)
      else if val x = 0 then (if signBit y then ofReal (- pi / 2) else ofReal (pi / 2))
      else ofReal (atan2 (val y) (val x)))"

text \<open>
  \<open>Math.pow(base, a)\<close> for a finite exponent \<open>a\<close> (the exponents are fractal parameters),
  with the cases of ECMAScript: the result is 1 for \<open>a = 0\<close> whatever the base, \<open>NaN\<close> for
  a negative base and an exponent that is not an integer.
\<close>

definition oddInteger :: "real \<Rightarrow> bool" where
  "oddInteger a = (a = real_of_int \<lfloor>a\<rfloor> \<and> odd \<lfloor>a\<rfloor>)"

definition Math_pow :: "double \<Rightarrow> real \<Rightarrow> double" where
  "Math_pow base a =
     (if a = 0 then Fin 1
      else case base of
        NaN \<Rightarrow> NaN
      | PInf \<Rightarrow> (if 0 < a then PInf else Fin 0)
      | NInf \<Rightarrow> (if 0 < a then (if oddInteger a then NInf else PInf)
                 else (if oddInteger a then NZero else Fin 0))
      | NZero \<Rightarrow> (if 0 < a then (if oddInteger a then NZero else Fin 0)
                  else (if oddInteger a then NInf else PInf))
      | Fin r \<Rightarrow>
          (if r = 0 then (if 0 < a then Fin 0 else PInf)
           else if 0 < r then ofReal (r powr a)
           else if a \<noteq> real_of_int \<lfloor>a\<rfloor> then NaN
           else if odd \<lfloor>a\<rfloor> then ofReal (- (\<bar>r\<bar> powr a))
           else ofReal (\<bar>r\<bar> powr a)))"

section \<open>Shared types (types.ts)\<close>

record FractalParams =
  realZ0 :: real
  imagZ0 :: real
  realC :: real
  imagC :: real
  exponent :: real
  imagExponent :: real
  colorHue :: real

record Viewport =
  centerX :: double
  centerY :: double
  zoom :: double

record RenderQuality =
  maxIterations :: int
  tileSize :: nat
  tilesPerFrame :: nat

text \<open>One RGBA8 pixel of an \<open>ImageData\<close>: four bytes.\<close>

type_synonym rgba = "int \<times> int \<times> int \<times> int"

record Tile =
  tile_x :: nat
  tile_y :: nat
  tile_width :: nat
  tile_height :: nat
  imageData :: "rgba list"

record RenderRequest =
  canvasWidth :: nat
  canvasHeight :: nat
  req_viewport :: Viewport
  req_params :: FractalParams
  quality :: RenderQuality
  requestId :: int
  storeIterations :: "bool option"

record TileResponse =
  tile :: Tile
  resp_requestId :: int
  isComplete :: bool
  resp_iterationData :: "real list option"

text \<open>\<open>WorkerRequest = RenderRequest | CancelRequest\<close>; a cancel carries a request id.\<close>

datatype WorkerRequest = Render RenderRequest | Cancel int

section \<open>Iteration engine (worker.ts)\<close>

definition isInCardioid :: "double \<Rightarrow> double \<Rightarrow> bool" where
  "isInCardioid x y =
     (let q = fadd (fmul (fsub x (Fin 0.25)) (fsub x (Fin 0.25))) (fmul y y)
      in flt (fmul q (fadd q (fsub x (Fin 0.25)))) (fmul (fmul (Fin 0.25) y) y))"

definition isInPeriod2Bulb :: "double \<Rightarrow> double \<Rightarrow> bool" where
  "isInPeriod2Bulb x y =
     flt (fadd (fmul (fadd x (Fin 1)) (fadd x (Fin 1))) (fmul y y)) (Fin 0.0625)"

text \<open>
  The main loop of \<open>computePixel\<close>.  The source keeps \<open>zrSq = zr * zr\<close> and
  \<open>ziSq = zi * zi\<close> in variables that are refreshed at the end of every pass; here they
  are recomputed from \<open>zr\<close> and \<open>zi\<close>.  The literal \<open>1e-10\<close> is the double nearest to
  \<open>10\<^sup>-\<^sup>1\<^sup>0\<close>.
\<close>

function iterate ::
  "FractalParams \<Rightarrow> double \<Rightarrow> double \<Rightarrow> int \<Rightarrow> double \<Rightarrow> double \<Rightarrow> int \<Rightarrow> double" where
  "iterate params cr ci maxIter zr zi iteration =
     (if iteration < maxIter then
        (let zrSq = fmul zr zr; ziSq = fmul zi zi in
         if fgt (fadd zrSq ziSq) (Fin 4) then
           (let log_zn = fdiv (Math_log (fadd zrSq ziSq)) (Fin 2);
                nu = fdiv (Math_log (fdiv log_zn (Math_log (Fin 2)))) (Math_log (Fin 2))
            in fsub (fadd (ofInt iteration) (Fin 1)) nu)
         else if exponent params = 2 \<and> imagExponent params = 0 then
           iterate params cr ci maxIter (fadd (fsub zrSq ziSq) cr)
             (fadd (fmul (fmul (Fin 2) zr) zi) ci) (iteration + 1)
         else if imagExponent params = 0 then
           (let r = Math_sqrt (fadd zrSq ziSq);
                theta = Math_atan2 zi zr;
                rk = Math_pow r (exponent params);
                thetaK = fmul theta (Fin (exponent params))
            in iterate params cr ci maxIter (fadd (fmul rk (Math_cos thetaK)) cr)
                 (fadd (fmul rk (Math_sin thetaK)) ci) (iteration + 1))
         else
           (let r = Math_sqrt (fadd zrSq ziSq) in
            if flt r (ofReal (1 / 10 ^ 10)) then Fin (- 1)
            else
              (let theta = Math_atan2 zi zr;
                   lnR = Math_log r;
                   a = exponent params;
                   b = imagExponent params;
                   magnitude = fmul (Math_pow r a) (Math_exp (fmul (Fin (- b)) theta));
                   angle = fadd (fmul (Fin a) theta) (fmul (Fin b) lnR)
               in if \<not> isFinite magnitude \<or> \<not> isFinite angle then ofInt iteration
                  else
                    (let zr' = fadd (fmul magnitude (Math_cos angle)) cr;
                         zi' = fadd (fmul magnitude (Math_sin angle)) ci
                     in if \<not> isFinite zr' \<or> \<not> isFinite zi' then ofInt iteration
                        else iterate params cr ci maxIter zr' zi' (iteration + 1)))))
      else Fin (- 1))"
  by pat_completeness auto
termination
  by (relation "measure (\<lambda>(params, cr, ci, maxIter, zr, zi, iteration). nat (maxIter - iteration))")
     auto

declare iterate.simps [simp del]

definition computePixel :: "double \<Rightarrow> double \<Rightarrow> FractalParams \<Rightarrow> int \<Rightarrow> bool \<Rightarrow> double" where
  "computePixel x0 y0 params maxIter useJulia =
     (if \<not> useJulia \<and> (isInCardioid x0 y0 \<or> isInPeriod2Bulb x0 y0) then Fin (- 1)
      else
        (let cr = (if useJulia then Fin (realC params) else x0);
             ci = (if useJulia then Fin (imagC params) else y0);
             zr = (if useJulia then x0 else Fin (realZ0 params));
             zi = (if useJulia then y0 else Fin (imagZ0 params))
         in iterate params cr ci maxIter zr zi 0))"

section \<open>Tile compute unit (worker.ts)\<close>

text \<open>The remainder operator \<open>%\<close> of JavaScript truncates the quotient towards zero.\<close>

definition jsTrunc :: "real \<Rightarrow> int" where
  "jsTrunc v = (if 0 \<le> v then \<lfloor>v\<rfloor> else \<lceil>v\<rceil>)"

definition jsMod :: "real \<Rightarrow> real \<Rightarrow> real" where
  "jsMod a b = a - b * real_of_int (jsTrunc (a / b))"

text \<open>\<open>Math.round\<close> rounds half up.\<close>

definition mathRound :: "real \<Rightarrow> int" where
  "mathRound v = \<lfloor>v + 1 / 2\<rfloor>"

text \<open>A store into the \<open>Uint8ClampedArray\<close> of an \<open>ImageData\<close> clamps to 0..255.\<close>

definition clampByte :: "int \<Rightarrow> int" where
  "clampByte v = max 0 (min 255 v)"

definition hsvToRgb :: "real \<Rightarrow> real \<Rightarrow> real \<Rightarrow> int \<times> int \<times> int" where
  "hsvToRgb h s v =
     (let c = v * s;
          x = c * (1 - \<bar>jsMod (h / 60) 2 - 1\<bar>);
          m = v - c;
          (r, g, b) =
            (if h < 60 then (c, x, 0)
             else if h < 120 then (x, c, 0)
             else if h < 180 then (0, c, x)
             else if h < 240 then (0, x, c)
             else if h < 300 then (x, 0, c)
             else (c, 0, x))
      in (mathRound ((r + m) * 255), mathRound ((g + m) * 255), mathRound ((b + m) * 255)))"

text \<open>
  The body of the pixel loop of \<open>computeTile\<close> after \<open>computePixel\<close> has returned
  \<open>smoothIter\<close>: the four bytes written at \<open>pixelIndex\<close>.
\<close>

definition tilePixel :: "FractalParams \<Rightarrow> int \<Rightarrow> real \<Rightarrow> rgba" where
  "tilePixel params maxIter smoothIter =
     (if smoothIter < 0 then (0, 0, 0, 255)
      else
        (let saturation = 0.85;
             t = sqrt (smoothIter / real_of_int maxIter);
             hue = jsMod (colorHue params + t * 360) 360;
             value = 0.5 + t * 0.5;
             (r, g, b) = hsvToRgb hue saturation value
         in (clampByte r, clampByte g, clampByte b, 255)))"

text \<open>
  The colour for the value that \<open>computePixel\<close> returned.  A finite value is coloured
  by \<open>tilePixel\<close>; \<open>-Infinity\<close> is below 0 and gives black; for \<open>Infinity\<close> and \<open>NaN\<close> the
  test \<open>smoothIter < 0\<close> fails, all three colour channels are computed as \<open>NaN\<close>, and the
  clamped array stores 0 for them.
\<close>

fun smoothPixel :: "FractalParams \<Rightarrow> int \<Rightarrow> double \<Rightarrow> rgba" where
  "smoothPixel params maxIter (Fin v) = tilePixel params maxIter v"
| "smoothPixel params maxIter NZero = tilePixel params maxIter 0"
| "smoothPixel params maxIter PInf = (0, 0, 0, 255)"
| "smoothPixel params maxIter NInf = (0, 0, 0, 255)"
| "smoothPixel params maxIter NaN = (0, 0, 0, 255)"

text \<open>
  \<open>computeTile\<close>: the pixels are listed row by row, as \<open>pixelIndex = (py * tileWidth + px) * 4\<close>
  lays them out.  (\<open>new ImageData\<close> needs a positive width and height; the scheduler
  below only asks for tiles of the grid, which are never empty.)  The literal \<open>0.001\<close>
  is the double nearest to \<open>1/1000\<close>.
\<close>

definition computeTile ::
  "nat \<Rightarrow> nat \<Rightarrow> nat \<Rightarrow> nat \<Rightarrow> nat \<Rightarrow> nat \<Rightarrow> Viewport \<Rightarrow> FractalParams \<Rightarrow> int \<Rightarrow> Tile" where
  "computeTile tileX tileY tileWidth tileHeight cw ch vp params maxIter =
     (let aspectRatio = fdiv (ofNat cw) (ofNat ch);
          scale = fdiv (Fin 4) (zoom vp);
          isJuliaSet =
            ((fgt (Math_abs (fsub (Fin (realC params)) (Fin 0))) (ofReal (1 / 1000)) \<or>
              fgt (Math_abs (Fin (imagC params))) (ofReal (1 / 1000))) \<and>
             (flt (Math_abs (Fin (realZ0 params))) (ofReal (1 / 1000)) \<and>
              flt (Math_abs (Fin (imagZ0 params))) (ofReal (1 / 1000))));
          useJulia = isJuliaSet
      in \<lparr>tile_x = tileX, tile_y = tileY, tile_width = tileWidth, tile_height = tileHeight,
          imageData = concat (map (\<lambda>py. map (\<lambda>px.
             (let screenX = tileX + px;
                  screenY = tileY + py;
                  x0 = fadd (centerX vp)
                         (fmul (fmul (fsub (fdiv (ofNat screenX) (ofNat cw)) (Fin 0.5)) scale)
                            aspectRatio);
                  y0 = fsub (centerY vp)
                         (fmul (fsub (fdiv (ofNat screenY) (ofNat ch)) (Fin 0.5)) scale);
                  smoothIter = computePixel x0 y0 params maxIter useJulia
              in smoothPixel params maxIter smoothIter)) [0..<tileWidth]) [0..<tileHeight])\<rparr>)"

section \<open>Render scheduler (worker.ts)\<close>

text \<open>
  The variables that the closure \<open>processBatch\<close> of one call of \<open>handleRenderRequest\<close>
  works on: the request, the sorted tile coordinates, \<open>tileIndex\<close>, \<open>tilesComputed\<close> and
  \<open>totalTiles\<close>.
\<close>

record Batch =
  request :: RenderRequest
  tiles :: "(nat \<times> nat) list"
  tileIndex :: nat
  tilesComputed :: nat
  totalTiles :: nat

text \<open>
  The worker: the module variable \<open>currentRequestId\<close> and the callbacks handed to
  \<open>setTimeout(processBatch, 0)\<close> that have not run yet, oldest first.
\<close>

record Worker =
  currentRequestId :: int
  timers :: "Batch list"

definition initialWorker :: Worker where
  "initialWorker = \<lparr>currentRequestId = - 1, timers = []\<rparr>"

text \<open>The two nested generation loops: row-major order, \<open>{x: tx, y: ty}\<close> as a pair.\<close>

definition generateTiles :: "nat \<Rightarrow> nat \<Rightarrow> (nat \<times> nat) list" where
  "generateTiles tilesX tilesY =
     concat (map (\<lambda>ty. map (\<lambda>tx. (tx, ty)) [0..<tilesX]) [0..<tilesY])"

definition tileDistance :: "nat \<Rightarrow> nat \<Rightarrow> nat \<times> nat \<Rightarrow> real" where
  "tileDistance centerTileX centerTileY a =
     sqrt ((real (fst a) - real centerTileX) ^ 2 + (real (snd a) - real centerTileY) ^ 2)"

text \<open>
  \<open>tiles.sort((a, b) => distA - distB)\<close>: \<open>Array.prototype.sort\<close> is stable, and the
  comparator orders by the distance, so the result is the stable sort by that key.
\<close>

definition sortTiles :: "nat \<Rightarrow> nat \<Rightarrow> (nat \<times> nat) list" where
  "sortTiles tilesX tilesY =
     sort_key (tileDistance (tilesX div 2) (tilesY div 2)) (generateTiles tilesX tilesY)"

text \<open>\<open>Math.ceil(canvasWidth / tileSize)\<close> for a positive tile size.\<close>

definition tileCount :: "nat \<Rightarrow> nat \<Rightarrow> nat" where
  "tileCount canvasSize ts = nat \<lceil>real canvasSize / real ts\<rceil>"

text \<open>The tile rectangle \<open>(tileX, tileY, tileWidth, tileHeight)\<close> computed in the batch loop.\<close>

definition tileRect :: "nat \<Rightarrow> nat \<Rightarrow> nat \<Rightarrow> nat \<times> nat \<Rightarrow> nat \<times> nat \<times> nat \<times> nat" where
  "tileRect ts cw ch t =
     (let tileX = fst t * ts;
          tileY = snd t * ts;
          tileWidth = min ts (cw - tileX);
          tileHeight = min ts (ch - tileY)
      in (tileX, tileY, tileWidth, tileHeight))"

text \<open>
  The \<open>for\<close> loop of \<open>processBatch\<close>, from index \<open>i\<close> up to \<open>batchEnd\<close>.  The result is
  the updated closure, the responses posted, and whether the loop left \<open>processBatch\<close>
  through its \<open>return\<close>.
\<close>

function batchLoop :: "Worker \<Rightarrow> Batch \<Rightarrow> nat \<Rightarrow> nat \<Rightarrow> Batch \<times> TileResponse list \<times> bool" where
  "batchLoop w b i batchEnd =
     (if i < batchEnd then
        (if currentRequestId w \<noteq> requestId (request b) then (b, [], True)
         else
           (let req = request b;
                (tileX, tileY, tileWidth, tileHeight) =
                   tileRect (tileSize (quality req)) (canvasWidth req) (canvasHeight req) (tiles b ! i);
                tl = computeTile tileX tileY tileWidth tileHeight (canvasWidth req)
                       (canvasHeight req) (req_viewport req) (req_params req)
                       (maxIterations (quality req));
                b' = b\<lparr>tilesComputed := tilesComputed b + 1\<rparr>;
                response = \<lparr>tile = tl, resp_requestId = requestId req,
                            isComplete = (tilesComputed b' = totalTiles b'),
                            resp_iterationData = None\<rparr>;
                (b'', out, returned) = batchLoop w b' (i + 1) batchEnd
            in (b'', response # out, returned)))
      else (b, [], False))"
  by pat_completeness auto
termination
  by (relation "measure (\<lambda>(w, b, i, batchEnd). batchEnd - i)") auto

declare batchLoop.simps [simp del]

definition processBatch :: "Worker \<Rightarrow> Batch \<Rightarrow> Worker \<times> TileResponse list" where
  "processBatch w b =
     (if currentRequestId w \<noteq> requestId (request b) then (w, [])
      else
        (let batchSize = tilesPerFrame (quality (request b));
             batchEnd = min (tileIndex b + batchSize) (length (tiles b));
             (b', out, returned) = batchLoop w b (tileIndex b) batchEnd
         in if returned then (w, out)
            else
              (let b'' = b'\<lparr>tileIndex := batchEnd\<rparr>
               in if tileIndex b'' < length (tiles b'') \<and>
                     currentRequestId w = requestId (request b'')
                  then (w\<lparr>timers := timers w @ [b'']\<rparr>, out)
                  else (w, out))))"

text \<open>
  \<open>handleRenderRequest\<close>.  With \<open>tileSize = 0\<close> the tile counts are \<open>Infinity\<close> or \<open>NaN\<close>:
  for a canvas of height 0 the outer generation loop does not run and there are no
  tiles; otherwise the generation loops never end, which is the result \<open>None\<close>.
\<close>

definition handleRenderRequest :: "Worker \<Rightarrow> RenderRequest \<Rightarrow> (Worker \<times> TileResponse list) option" where
  "handleRenderRequest w req =
     (let w' = w\<lparr>currentRequestId := requestId req\<rparr>;
          ts = tileSize (quality req)
      in if ts = 0 then
           (if canvasHeight req = 0
            then Some (processBatch w' \<lparr>request = req, tiles = [], tileIndex = 0,
                                        tilesComputed = 0, totalTiles = 0\<rparr>)
            else None)
         else
           (let tilesX = tileCount (canvasWidth req) ts;
                tilesY = tileCount (canvasHeight req) ts
            in Some (processBatch w' \<lparr>request = req, tiles = sortTiles tilesX tilesY,
                                       tileIndex = 0, tilesComputed = 0,
                                       totalTiles = tilesX * tilesY\<rparr>)))"

definition worker_onmessage :: "Worker \<Rightarrow> WorkerRequest \<Rightarrow> (Worker \<times> TileResponse list) option" where
  "worker_onmessage w msg =
     (case msg of
        Cancel rid \<Rightarrow> Some (w\<lparr>currentRequestId := - 1\<rparr>, [])
      | Render req \<Rightarrow> handleRenderRequest w req)"

text \<open>
  What the worker's event loop can do next: take a message, or run the oldest pending
  timeout callback.
\<close>

datatype WorkerEvent = Message WorkerRequest | TimerFires

definition workerStep :: "Worker \<Rightarrow> WorkerEvent \<Rightarrow> (Worker \<times> TileResponse list) option" where
  "workerStep w ev =
     (case ev of
        Message msg \<Rightarrow> worker_onmessage w msg
      | TimerFires \<Rightarrow>
          (case timers w of
             [] \<Rightarrow> Some (w, [])
           | b # bs \<Rightarrow> Some (processBatch (w\<lparr>timers := bs\<rparr>) b)))"

text \<open>
  A run of the worker over a sequence of events: the final worker (\<open>None\<close> when a
  handler never returned; nothing runs after that) and all responses posted, in order.
\<close>

fun runWorker :: "Worker \<Rightarrow> WorkerEvent list \<Rightarrow> Worker option \<times> TileResponse list" where
  "runWorker w [] = (Some w, [])"
| "runWorker w (ev # evs) =
     (case workerStep w ev of
        None \<Rightarrow> (None, [])
      | Some (w', out) \<Rightarrow> (let (r, out') = runWorker w' evs in (r, out @ out')))"

section \<open>Compositor (renderer.ts)\<close>

text \<open>
  The state of a \<open>FractalRenderer\<close>.  Canvases are represented by their sizes; pixel
  contents are not part of the state, except that every \<open>putImageData\<close> on the overscan
  context is recorded in \<open>overscanPut\<close> (the image with its position, oldest first).
  The seeding of the overscan canvas in \<open>render\<close> and the black fill of the visible canvas
  \<open>updateMainCanvas\<close> draw pixels only; every crop that \<open>updateMainCanvas\<close> copies
  from the overscan canvas to the visible canvas is recorded in \<open>mainCanvasCrops\<close> (the
  offset of the source rectangle and its size, oldest first).  \<open>posted\<close> lists the
  messages given to \<open>worker.postMessage\<close>, oldest first.  The field
  \<open>interactionTimeout\<close> is never assigned in the source and is left out.
\<close>

record Renderer =
  canvas_width :: nat
  canvas_height :: nat
  r_currentRequestId :: int
  overscan_width :: nat
  overscan_height :: nat
  overscanViewport :: "Viewport option"
  background_width :: nat
  background_height :: nat
  backgroundViewport :: "Viewport option"
  viewport :: Viewport
  params :: FractalParams
  isInteracting :: bool
  lowQuality :: RenderQuality
  highQuality :: RenderQuality
  iterationData :: "real list option"
  iterationDataWidth :: nat
  iterationDataHeight :: nat
  resolutionMultiplier :: real
  posted :: "WorkerRequest list"
  overscanPut :: "Tile list"
  mainCanvasCrops :: "(real \<times> real \<times> nat \<times> nat) list"
  workerTerminated :: bool

datatype error = IndexSizeError

text \<open>
  The constructor, for a canvas of the given size.  A canvas made by
  \<open>document.createElement('canvas')\<close> is 300 by 150 pixels.
\<close>

definition constructor :: "nat \<Rightarrow> nat \<Rightarrow> Viewport \<Rightarrow> FractalParams \<Rightarrow> Renderer" where
  "constructor w h initialViewport initialParams =
     \<lparr>canvas_width = w, canvas_height = h, r_currentRequestId = 0,
      overscan_width = 300, overscan_height = 150, overscanViewport = None,
      background_width = 300, background_height = 150, backgroundViewport = None,
      viewport = initialViewport, params = initialParams, isInteracting = False,
      lowQuality = \<lparr>maxIterations = 64, tileSize = 64, tilesPerFrame = 8\<rparr>,
      highQuality = \<lparr>maxIterations = 256, tileSize = 32, tilesPerFrame = 4\<rparr>,
      iterationData = None, iterationDataWidth = 0, iterationDataHeight = 0,
      resolutionMultiplier = 1, posted = [], overscanPut = [], mainCanvasCrops = [],
      workerTerminated = False\<rparr>"

definition saveToBackground :: "Renderer \<Rightarrow> Renderer" where
  "saveToBackground st =
     (if overscan_width st = 0 \<or> overscan_height st = 0 then st
      else st\<lparr>background_width := overscan_width st,
              background_height := overscan_height st,
              backgroundViewport := overscanViewport st\<rparr>)"

text \<open>
  \<open>updateMainCanvas\<close>: without an overscan viewport nothing happens; otherwise the
  rectangle of the size of the visible canvas at \<open>(offsetX, offsetY)\<close> of the overscan
  canvas is drawn onto the visible canvas.
\<close>

definition updateMainCanvas :: "Renderer \<Rightarrow> Renderer" where
  "updateMainCanvas st =
     (case overscanViewport st of
        None \<Rightarrow> st
      | Some ov \<Rightarrow>
          (let offsetX = (real (overscan_width st) - real (canvas_width st)) / 2;
               offsetY = (real (overscan_height st) - real (canvas_height st)) / 2
           in st\<lparr>mainCanvasCrops := mainCanvasCrops st @
                    [(offsetX, offsetY, canvas_width st, canvas_height st)]\<rparr>))"

text \<open>
  The value assigned to \<open>quality.maxIterations\<close> for the number
  \<open>v = 128 + zoomLevel * 32\<close>, that is \<open>Math.min(512, Math.floor(v))\<close>.  For \<open>v = NaN\<close> and
  \<open>v = -Infinity\<close> the source stores \<open>NaN\<close> and \<open>-Infinity\<close>; the integer 0 stands for
  both: the worker uses the limit only in \<open>iteration < maxIterations\<close>, which is false at
  once for all three.
\<close>

fun adaptiveLimit :: "double \<Rightarrow> int" where
  "adaptiveLimit (Fin v) = min 512 \<lfloor>v\<rfloor>"
| "adaptiveLimit NZero = 0"
| "adaptiveLimit PInf = 512"
| "adaptiveLimit NInf = 0"
| "adaptiveLimit NaN = 0"

text \<open>
  \<open>render\<close>.  \<open>quality\<close> is a reference to \<open>this.lowQuality\<close> or \<open>this.highQuality\<close>, so the
  adaptive assignment to \<open>quality.maxIterations\<close> changes \<open>this.highQuality\<close>.
\<close>

definition render :: "Renderer \<Rightarrow> Renderer" where
  "render st =
     (let newId = r_currentRequestId st + 1;
          cancelRequest = Cancel (newId - 1);
          overscanWidth = nat \<lfloor>real (canvas_width st) * 1.5\<rfloor>;
          overscanHeight = nat \<lfloor>real (canvas_height st) * 1.5\<rfloor>;
          st1 = st\<lparr>r_currentRequestId := newId,
                   posted := posted st @ [cancelRequest],
                   overscan_width := overscanWidth,
                   overscan_height := overscanHeight,
                   overscanViewport := Some (viewport st)\<rparr>;
          st2 = (if \<not> isInteracting st1
                 then (let zoomLevel = Math_log2 (zoom (viewport st1))
                       in st1\<lparr>highQuality := (highQuality st1)
                              \<lparr>maxIterations :=
                                 adaptiveLimit (fadd (Fin 128) (fmul zoomLevel (Fin 32)))\<rparr>\<rparr>)
                 else st1);
          qual = (if isInteracting st2 then lowQuality st2 else highQuality st2);
          renderRequest = Render \<lparr>canvasWidth = overscanWidth, canvasHeight = overscanHeight,
                                  req_viewport = viewport st2, req_params = params st2,
                                  quality = qual, requestId = r_currentRequestId st2,
                                  storeIterations = Some True\<rparr>
      in st2\<lparr>posted := posted st2 @ [renderRequest],
             iterationDataWidth := overscanWidth,
             iterationDataHeight := overscanHeight\<rparr>)"

text \<open>The handler installed by \<open>setupWorker\<close> for the worker's responses.\<close>

definition renderer_onmessage :: "Renderer \<Rightarrow> TileResponse \<Rightarrow> Renderer" where
  "renderer_onmessage st response =
     (if resp_requestId response \<noteq> r_currentRequestId st then st
      else
        (let st1 = st\<lparr>overscanPut := overscanPut st @ [tile response]\<rparr>;
             st2 = updateMainCanvas st1
         in if isComplete response \<and> \<not> isInteracting st2 then saveToBackground st2 else st2))"

definition resize :: "Renderer \<Rightarrow> nat \<Rightarrow> nat \<Rightarrow> Renderer" where
  "resize st width height = render (st\<lparr>canvas_width := width, canvas_height := height\<rparr>)"

definition startInteraction :: "Renderer \<Rightarrow> Renderer" where
  "startInteraction st = st\<lparr>isInteracting := True\<rparr>"

definition endInteraction :: "Renderer \<Rightarrow> Renderer" where
  "endInteraction st = render (st\<lparr>isInteracting := False\<rparr>)"

text \<open>The literals \<open>0.01\<close> and \<open>0.2\<close> are the doubles nearest to \<open>1/100\<close> and \<open>1/5\<close>.\<close>

definition needsRerender :: "Renderer \<Rightarrow> bool" where
  "needsRerender st =
     (case overscanViewport st of
        None \<Rightarrow> True
      | Some ov \<Rightarrow>
          (let scale = fdiv (Fin 4) (zoom (viewport st));
               overscanScale = fdiv (Fin 4) (zoom ov)
           in if fgt (Math_abs (fsub (zoom (viewport st)) (zoom ov)))
                     (fmul (zoom (viewport st)) (ofReal (1 / 100)))
              then True
              else
                (let dx = Math_abs (fsub (centerX (viewport st)) (centerX ov));
                     dy = Math_abs (fsub (centerY (viewport st)) (centerY ov));
                     threshold = fmul scale (ofReal (1 / 5))
                 in fgt dx threshold \<or> fgt dy threshold)))"

text \<open>The viewport after the first four statements of \<open>pan\<close>.\<close>

definition panViewport :: "Renderer \<Rightarrow> double \<Rightarrow> double \<Rightarrow> Viewport" where
  "panViewport st dx dy =
     (let scale = fdiv (Fin 4) (zoom (viewport st));
          aspectRatio = fdiv (ofNat (canvas_width st)) (ofNat (canvas_height st))
      in (viewport st)
           \<lparr>centerX := fsub (centerX (viewport st))
                          (fmul (fmul (fdiv dx (ofNat (canvas_width st))) scale) aspectRatio),
            centerY := fadd (centerY (viewport st))
                          (fmul (fdiv dy (ofNat (canvas_height st))) scale)\<rparr>)"

definition pan :: "Renderer \<Rightarrow> double \<Rightarrow> double \<Rightarrow> Renderer" where
  "pan st dx dy =
     (let st1 = st\<lparr>viewport := panViewport st dx dy\<rparr>
      in if isInteracting st1 then render st1
         else if needsRerender st1 then render st1
         else updateMainCanvas st1)"

text \<open>\<open>zoom(factor, mouseX?, mouseY?)\<close>; the mouse position is used when both are given.\<close>

definition zoomBy :: "Renderer \<Rightarrow> double \<Rightarrow> double option \<Rightarrow> double option \<Rightarrow> Renderer" where
  "zoomBy st factor mouseX mouseY =
     (let newZoom = fmul (zoom (viewport st)) factor
      in if flt newZoom (Fin 0.5) \<or> fgt newZoom (Fin (10 ^ 12)) then st
         else
           (let v = viewport st;
                v' = (case (mouseX, mouseY) of
                        (Some mx, Some my) \<Rightarrow>
                          (let scale = fdiv (Fin 4) (zoom v);
                               aspectRatio = fdiv (ofNat (canvas_width st)) (ofNat (canvas_height st));
                               mouseXNorm = fsub (fdiv mx (ofNat (canvas_width st))) (Fin 0.5);
                               mouseYNorm = fsub (Fin 0.5) (fdiv my (ofNat (canvas_height st)));
                               worldX = fadd (centerX v) (fmul (fmul mouseXNorm scale) aspectRatio);
                               worldY = fadd (centerY v) (fmul mouseYNorm scale);
                               z' = fmul (zoom v) factor;
                               newScale = fdiv (Fin 4) z'
                           in \<lparr>centerX = fsub worldX (fmul (fmul mouseXNorm newScale) aspectRatio),
                               centerY = fsub worldY (fmul mouseYNorm newScale),
                               zoom = z'\<rparr>)
                      | _ \<Rightarrow> v\<lparr>zoom := fmul (zoom v) factor\<rparr>)
            in render (st\<lparr>viewport := v'\<rparr>)))"

text \<open>
  \<open>Partial<FractalParams>\<close>: each key is present with a value or absent.
\<close>

record PartialParams =
  p_realZ0 :: "real option"
  p_imagZ0 :: "real option"
  p_realC :: "real option"
  p_imagC :: "real option"
  p_exponent :: "real option"
  p_imagExponent :: "real option"
  p_colorHue :: "real option"

text \<open>\<open>Object.keys(params).length\<close>.\<close>

definition keyCount :: "PartialParams \<Rightarrow> nat" where
  "keyCount p =
     length (filter (\<lambda>v. v \<noteq> None)
       [p_realZ0 p, p_imagZ0 p, p_realC p, p_imagC p, p_exponent p, p_imagExponent p,
        p_colorHue p])"

text \<open>\<open>{ ...this.params, ...params }\<close>.\<close>

definition mergeParams :: "FractalParams \<Rightarrow> PartialParams \<Rightarrow> FractalParams" where
  "mergeParams old p =
     \<lparr>realZ0 = (case p_realZ0 p of Some v \<Rightarrow> v | None \<Rightarrow> realZ0 old),
      imagZ0 = (case p_imagZ0 p of Some v \<Rightarrow> v | None \<Rightarrow> imagZ0 old),
      realC = (case p_realC p of Some v \<Rightarrow> v | None \<Rightarrow> realC old),
      imagC = (case p_imagC p of Some v \<Rightarrow> v | None \<Rightarrow> imagC old),
      exponent = (case p_exponent p of Some v \<Rightarrow> v | None \<Rightarrow> exponent old),
      imagExponent = (case p_imagExponent p of Some v \<Rightarrow> v | None \<Rightarrow> imagExponent old),
      colorHue = (case p_colorHue p of Some v \<Rightarrow> v | None \<Rightarrow> colorHue old)\<rparr>"

text \<open>The private copy of \<open>hsvToRgb\<close> in the renderer.\<close>

definition renderer_hsvToRgb :: "real \<Rightarrow> real \<Rightarrow> real \<Rightarrow> int \<times> int \<times> int" where
  "renderer_hsvToRgb h s v =
     (let c = v * s;
          x = c * (1 - \<bar>jsMod (h / 60) 2 - 1\<bar>);
          m = v - c;
          (r, g, b) =
            (if h < 60 then (c, x, 0)
             else if h < 120 then (x, c, 0)
             else if h < 180 then (0, c, x)
             else if h < 240 then (0, x, c)
             else if h < 300 then (x, 0, c)
             else (c, 0, x))
      in (mathRound ((r + m) * 255), mathRound ((g + m) * 255), mathRound ((b + m) * 255)))"

text \<open>The body of the loop of \<open>recolor\<close>: the four bytes written for one cached value.\<close>

definition recolorPixel :: "bool \<Rightarrow> real \<Rightarrow> real \<Rightarrow> rgba" where
  "recolorPixel interacting newHue smoothIter =
     (if smoothIter < 0 then (0, 0, 0, 255)
      else
        (let saturation = 0.85;
             maxIter = (if interacting then 64 else 256);
             t = sqrt (smoothIter / maxIter);
             hue = jsMod (newHue + t * 360) 360;
             value = 0.5 + t * 0.5;
             (r, g, b) = renderer_hsvToRgb hue saturation value
         in (clampByte r, clampByte g, clampByte b, 255)))"

text \<open>
  The image built by \<open>recolor\<close>: \<open>createImageData\<close> gives \<open>width * height\<close> transparent
  black pixels, the loop overwrites pixel \<open>i\<close> for every cached value, and a store past
  the end of the array has no effect.
\<close>

definition recolorImage :: "Renderer \<Rightarrow> real \<Rightarrow> real list \<Rightarrow> rgba list" where
  "recolorImage st newHue cache =
     map (\<lambda>i. if i < length cache then recolorPixel (isInteracting st) newHue (cache ! i)
               else (0, 0, 0, 0))
         [0..<overscan_width st * overscan_height st]"

text \<open>
  \<open>recolor\<close>.  \<open>createImageData\<close> throws \<open>IndexSizeError\<close> for a width or height of 0;
  the exception leaves \<open>recolor\<close> and its caller.
\<close>

definition recolor :: "Renderer \<Rightarrow> real \<Rightarrow> error + Renderer" where
  "recolor st newHue =
     (case iterationData st of
        None \<Rightarrow> Inr (render st)
      | Some cache \<Rightarrow>
          if iterationDataWidth st \<noteq> overscan_width st \<or>
             iterationDataHeight st \<noteq> overscan_height st
          then Inr (render st)
          else if overscan_width st = 0 \<or> overscan_height st = 0 then Inl IndexSizeError
          else
            Inr (updateMainCanvas
                  (st\<lparr>overscanPut := overscanPut st @
                        [\<lparr>tile_x = 0, tile_y = 0, tile_width = overscan_width st,
                          tile_height = overscan_height st,
                          imageData = recolorImage st newHue cache\<rparr>]\<rparr>)))"

definition updateParams :: "Renderer \<Rightarrow> PartialParams \<Rightarrow> error + Renderer" where
  "updateParams st p =
     (let st1 = st\<lparr>params := mergeParams (params st) p\<rparr>
      in case p_colorHue p of
           Some newHue \<Rightarrow>
             if keyCount p = 1 \<and> iterationData st1 \<noteq> None then recolor st1 newHue
             else Inr (render st1)
         | None \<Rightarrow> Inr (render st1))"

definition storeIterationData :: "Renderer \<Rightarrow> real list \<Rightarrow> Renderer" where
  "storeIterationData st cache = st\<lparr>iterationData := Some cache\<rparr>"

definition setResolution :: "Renderer \<Rightarrow> real \<Rightarrow> Renderer" where
  "setResolution st multiplier =
     (let baseIterations = 256;
          st1 = st\<lparr>resolutionMultiplier := multiplier,
                   highQuality := (highQuality st)
                     \<lparr>maxIterations := \<lfloor>baseIterations * multiplier\<rfloor>,
                      tileSize := nat (max 16 \<lfloor>32 / multiplier\<rfloor>)\<rparr>,
                   lowQuality := (lowQuality st)
                     \<lparr>maxIterations := \<lfloor>64 * multiplier\<rfloor>,
                      tileSize := nat (max 32 \<lfloor>64 / multiplier\<rfloor>)\<rparr>\<rparr>
      in if \<not> isInteracting st1 then render st1 else st1)"

definition destroy :: "Renderer \<Rightarrow> Renderer" where
  "destroy st = st\<lparr>workerTerminated := True\<rparr>"

section \<open>Notions used to state the properties\<close>

text \<open>
  The closure variables with which \<open>handleRenderRequest\<close> first calls \<open>processBatch\<close>,
  for a positive tile size.
\<close>

definition initialBatch :: "RenderRequest \<Rightarrow> Batch" where
  "initialBatch req =
     (let ts = tileSize (quality req);
          tilesX = tileCount (canvasWidth req) ts;
          tilesY = tileCount (canvasHeight req) ts
      in \<lparr>request = req, tiles = sortTiles tilesX tilesY, tileIndex = 0, tilesComputed = 0,
          totalTiles = tilesX * tilesY\<rparr>)"

text \<open>
  The response the batch loop builds for the tile at index \<open>j\<close> of the sorted list when it
  is the \<open>(j + 1)\<close>-th tile computed.
\<close>

definition responseAt :: "Batch \<Rightarrow> nat \<Rightarrow> TileResponse" where
  "responseAt b j =
     (let req = request b;
          (tileX, tileY, tileWidth, tileHeight) =
             tileRect (tileSize (quality req)) (canvasWidth req) (canvasHeight req) (tiles b ! j)
      in \<lparr>tile = computeTile tileX tileY tileWidth tileHeight (canvasWidth req)
                 (canvasHeight req) (req_viewport req) (req_params req)
                 (maxIterations (quality req)),
          resp_requestId = requestId req,
          isComplete = (j + 1 = totalTiles b),
          resp_iterationData = None\<rparr>)"

text \<open>\<open>batchEnd\<close> as \<open>processBatch\<close> computes it.\<close>

definition batchEndOf :: "Batch \<Rightarrow> nat" where
  "batchEndOf b = min (tileIndex b + tilesPerFrame (quality (request b))) (length (tiles b))"

text \<open>A canvas pixel lies in the rectangle \<open>(x, y, width, height)\<close>.\<close>

definition pixelInTile :: "nat \<Rightarrow> nat \<Rightarrow> nat \<times> nat \<times> nat \<times> nat \<Rightarrow> bool" where
  "pixelInTile px py r =
     (case r of (x, y, w, h) \<Rightarrow> x \<le> px \<and> px < x + w \<and> y \<le> py \<and> py < y + h)"

text \<open>The rectangle \<open>(x, y, width, height)\<close> that a tile of a response occupies.\<close>

definition tileArea :: "Tile \<Rightarrow> nat \<times> nat \<times> nat \<times> nat" where
  "tileArea t = (tile_x t, tile_y t, tile_width t, tile_height t)"

text \<open>
  The states of a renderer that the page can reach through the public operations and
  the delivery of worker responses, without a call of \<open>storeIterationData\<close>.
\<close>

inductive reachable :: "Renderer \<Rightarrow> bool" where
  r_constructor: "reachable (constructor w h v ps)"
| r_render: "reachable st \<Longrightarrow> reachable (render st)"
| r_resize: "reachable st \<Longrightarrow> reachable (resize st w h)"
| r_pan: "reachable st \<Longrightarrow> reachable (pan st dx dy)"
| r_zoom: "reachable st \<Longrightarrow> reachable (zoomBy st factor mx my)"
| r_updateParams: "reachable st \<Longrightarrow> updateParams st p = Inr st' \<Longrightarrow> reachable st'"
| r_setResolution: "reachable st \<Longrightarrow> reachable (setResolution st m)"
| r_startInteraction: "reachable st \<Longrightarrow> reachable (startInteraction st)"
| r_endInteraction: "reachable st \<Longrightarrow> reachable (endInteraction st)"
| r_saveToBackground: "reachable st \<Longrightarrow> reachable (saveToBackground st)"
| r_destroy: "reachable st \<Longrightarrow> reachable (destroy st)"
| r_onmessage: "reachable st \<Longrightarrow> reachable (renderer_onmessage st response)"

text \<open>
  The numbers of the escape branch of \<open>computePixel\<close> for a finite sum of squares \<open>s\<close>:
  \<open>Math.log(2)\<close>, the quotient \<open>log_zn / Math.log(2)\<close>, and \<open>nu\<close>, each as the real value of
  the double that the branch computes.
\<close>

definition ln2d :: real where
  "ln2d = round64 (ln 2)"

definition escapeRatio :: "real \<Rightarrow> real" where
  "escapeRatio s = round64 (round64 (round64 (ln s) / 2) / ln2d)"

definition smoothNu :: "real \<Rightarrow> real" where
  "smoothNu s = round64 (round64 (ln (escapeRatio s)) / ln2d)"

section \<open>Inputs used in examples\<close>

text \<open>The parameters and the viewport the page starts with: the classic Mandelbrot set.\<close>

definition standardParams :: FractalParams where
  "standardParams = \<lparr>realZ0 = 0, imagZ0 = 0, realC = 0, imagC = 0, exponent = 2,
     imagExponent = 0, colorHue = 200\<rparr>"

definition standardViewport :: Viewport where
  "standardViewport = \<lparr>centerX = Fin 0, centerY = Fin 0, zoom = Fin 1\<rparr>"

text \<open>A render request for the standard view with the given sizes, batch size and id.\<close>

definition exampleRequest :: "nat \<Rightarrow> nat \<Rightarrow> nat \<Rightarrow> nat \<Rightarrow> int \<Rightarrow> RenderRequest" where
  "exampleRequest cw ch ts tpf rid =
     \<lparr>canvasWidth = cw, canvasHeight = ch, req_viewport = standardViewport,
      req_params = standardParams,
      quality = \<lparr>maxIterations = 64, tileSize = ts, tilesPerFrame = tpf\<rparr>,
      requestId = rid, storeIterations = Some True\<rparr>"

text \<open>The argument \<open>{ colorHue: h }\<close> of \<open>updateParams\<close>.\<close>

definition onlyColorHue :: "real \<Rightarrow> PartialParams" where
  "onlyColorHue h = \<lparr>p_realZ0 = None, p_imagZ0 = None, p_realC = None, p_imagC = None,
     p_exponent = None, p_imagExponent = None, p_colorHue = Some h\<rparr>"

section \<open>Properties of rounding\<close>

lemma floor_log2_eq:
  assumes "2 powi e \<le> x" "x < 2 powi (e + 1)"
  shows "\<lfloor>log 2 x\<rfloor> = e"
proof -
  have pos: "0 < x" using assms(1) by (smt (verit) zero_less_power_int)
  have a: "(2::real) powr real_of_int e = 2 powi e" by (rule powr_real_of_int') auto
  have b: "(2::real) powr real_of_int (e + 1) = 2 powi (e + 1)" by (rule powr_real_of_int') auto
  have "real_of_int e \<le> log 2 x" using assms(1) pos a by (simp add: le_log_iff)
  moreover have "log 2 x < real_of_int (e + 1)" using assms(2) pos b by (simp add: log_less_iff)
  ultimately show ?thesis by (intro floor_unique) auto
qed

lemma expo_eq:
  assumes "2 powi e \<le> \<bar>x\<bar>" "\<bar>x\<bar> < 2 powi (e + 1)" "- 1022 \<le> e"
  shows "expo x = e"
  using floor_log2_eq[OF assms(1,2)] assms(3) by (simp add: expo_def)

lemma expo_subnormal:
  assumes "x \<noteq> 0" "\<bar>x\<bar> < 2 powi (- 1022)"
  shows "expo x = - 1022"
proof -
  have pos: "0 < \<bar>x\<bar>" using assms(1) by simp
  have b: "(2::real) powr real_of_int (- 1022) = 2 powi (- 1022)" by (rule powr_real_of_int') auto
  have "log 2 \<bar>x\<bar> < real_of_int (- 1022)" using assms(2) pos b by (simp add: log_less_iff)
  then have "\<lfloor>log 2 \<bar>x\<bar>\<rfloor> < - 1022" by (simp add: floor_less_iff)
  then show ?thesis by (simp add: expo_def)
qed

lemma round64_eval:
  assumes "2 powi e \<le> \<bar>x\<bar>" "\<bar>x\<bar> < 2 powi (e + 1)" "- 1022 \<le> e"
  shows "round64 x = real_of_int (roundEven (x / 2 powi (e - 52))) * 2 powi (e - 52)"
proof -
  have "x \<noteq> 0" using assms(1) by (smt (verit) zero_less_power_int)
  then show ?thesis using expo_eq[OF assms] by (simp add: round64_def)
qed


lemma roundEven_bounds:
  "real_of_int (roundEven y) - 1 / 2 \<le> y \<and> y \<le> real_of_int (roundEven y) + 1 / 2"
  unfolding roundEven_def Let_def by (auto; linarith)

lemma roundEven_of_int [simp]: "roundEven (real_of_int n) = n"
  by (simp add: roundEven_def)


lemma roundEven_mono:
  assumes "x \<le> y"
  shows "roundEven x \<le> roundEven y"
proof (rule ccontr)
  assume "\<not> roundEven x \<le> roundEven y"
  then have lt: "roundEven y + 1 \<le> roundEven x" by simp
  then have "real_of_int (roundEven y) + 1 \<le> real_of_int (roundEven x)" by linarith
  with roundEven_bounds[of x] roundEven_bounds[of y] assms have "x = y" by linarith
  with lt show False by simp
qed

lemma roundEven_minus: "roundEven (- y) = - roundEven y"
proof (cases "y = real_of_int \<lfloor>y\<rfloor>")
  case True
  then have "- y = real_of_int (- \<lfloor>y\<rfloor>)" by simp
  then have "roundEven (- y) = - \<lfloor>y\<rfloor>" by (metis roundEven_of_int)
  moreover have "roundEven y = \<lfloor>y\<rfloor>" using True by (metis roundEven_of_int)
  ultimately show ?thesis by simp
next
  case False
  have fl: "\<lfloor>- y\<rfloor> = - \<lfloor>y\<rfloor> - 1"
    using False by (simp add: floor_minus ceiling_altdef)
  have r: "0 < y - real_of_int \<lfloor>y\<rfloor>" "y - real_of_int \<lfloor>y\<rfloor> < 1"
    using False by linarith+
  show ?thesis
    unfolding roundEven_def Let_def fl using r by auto
qed


lemma powi_split: "(2::real) powi (e + 1) = 2 ^ 53 * 2 powi (e - 52)"
proof -
  have "e + 1 = 53 + (e - 52)" by simp
  then have "(2::real) powi (e + 1) = 2 powi (53 + (e - 52))" by (simp only:)
  also have "\<dots> = 2 powi 53 * 2 powi (e - 52)" by (rule power_int_add) simp
  finally show ?thesis by simp
qed

lemma powi_split': "(2::real) powi e = 2 ^ 52 * 2 powi (e - 52)"
proof -
  have "e = 52 + (e - 52)" by simp
  then have "(2::real) powi e = 2 powi (52 + (e - 52))" by (simp only:)
  also have "\<dots> = 2 powi 52 * 2 powi (e - 52)" by (rule power_int_add) simp
  finally show ?thesis by simp
qed

lemma round64_minus: "round64 (- x) = - round64 x"
  by (simp add: round64_def expo_def roundEven_minus)

lemma round64_zero [simp]: "round64 0 = 0"
  by (simp add: round64_def)

lemma round64_nonneg:
  assumes "0 \<le> x"
  shows "0 \<le> round64 x"
proof (cases "x = 0")
  case False
  have "0 \<le> x / 2 powi (expo x - 52)" using assms by simp
  then have "roundEven 0 \<le> roundEven (x / 2 powi (expo x - 52))" by (rule roundEven_mono)
  moreover have "roundEven 0 = 0" using roundEven_of_int[of 0] by simp
  ultimately show ?thesis using False by (simp add: round64_def)
qed simp

lemma round64_nonpos: "x \<le> 0 \<Longrightarrow> round64 x \<le> 0"
  using round64_nonneg[of "- x"] by (simp add: round64_minus)

lemma abs_less_expo:
  assumes "x \<noteq> 0"
  shows "\<bar>x\<bar> < 2 powi (expo x + 1)"
proof -
  have pos: "0 < \<bar>x\<bar>" using assms by simp
  have "log 2 \<bar>x\<bar> < real_of_int (\<lfloor>log 2 \<bar>x\<bar>\<rfloor> + 1)" by linarith
  also have "\<dots> \<le> real_of_int (expo x + 1)" by (simp add: expo_def)
  finally have "log 2 \<bar>x\<bar> < real_of_int (expo x + 1)" .
  then have "\<bar>x\<bar> < 2 powr real_of_int (expo x + 1)" using pos by (simp add: log_less_iff)
  also have "(2::real) powr real_of_int (expo x + 1) = 2 powi (expo x + 1)"
    by (rule powr_real_of_int') auto
  finally show ?thesis .
qed

lemma expo_le_abs:
  assumes "2 powi (- 1022) \<le> \<bar>x\<bar>"
  shows "2 powi (expo x) \<le> \<bar>x\<bar>"
proof -
  have pos: "0 < \<bar>x\<bar>" using assms by (smt (verit) zero_less_power_int)
  have b: "(2::real) powr real_of_int (- 1022) = 2 powi (- 1022)"
    by (rule powr_real_of_int') auto
  have "real_of_int (- 1022) \<le> log 2 \<bar>x\<bar>" using assms pos b by (simp add: le_log_iff)
  then have "- 1022 \<le> \<lfloor>log 2 \<bar>x\<bar>\<rfloor>" by (simp add: le_floor_iff)
  then have e: "expo x = \<lfloor>log 2 \<bar>x\<bar>\<rfloor>" by (simp add: expo_def)
  have "real_of_int (expo x) \<le> log 2 \<bar>x\<bar>" unfolding e by simp
  then have "2 powr real_of_int (expo x) \<le> \<bar>x\<bar>" using pos by (simp add: le_log_iff)
  moreover have "(2::real) powr real_of_int (expo x) = 2 powi (expo x)"
    by (rule powr_real_of_int') auto
  ultimately show ?thesis by simp
qed

lemma round64_upper:
  assumes "0 < x"
  shows "round64 x \<le> 2 powi (expo x + 1)"
proof -
  let ?q = "(2::real) powi (expo x - 52)"
  have q: "0 < ?q" by (simp add: zero_less_power_int)
  have "x < 2 ^ 53 * ?q" using abs_less_expo[of x] assms by (simp add: powi_split)
  then have "x / ?q \<le> real_of_int (2 ^ 53)" using q by (simp add: pos_divide_le_eq)
  then have "roundEven (x / ?q) \<le> roundEven (real_of_int (2 ^ 53))" by (rule roundEven_mono)
  then have "roundEven (x / ?q) \<le> 2 ^ 53" by (simp only: roundEven_of_int)
  then have "real_of_int (roundEven (x / ?q)) \<le> real_of_int (2 ^ 53)"
    by (simp only: of_int_le_iff)
  then have "real_of_int (roundEven (x / ?q)) \<le> 2 ^ 53" by simp
  then have "real_of_int (roundEven (x / ?q)) * ?q \<le> 2 ^ 53 * ?q"
    using q by (simp add: mult_right_mono)
  then show ?thesis using assms by (simp add: round64_def powi_split)
qed

lemma round64_lower:
  assumes "2 powi (expo x) \<le> x"
  shows "2 powi (expo x) \<le> round64 x"
proof -
  let ?q = "(2::real) powi (expo x - 52)"
  have q: "0 < ?q" by (simp add: zero_less_power_int)
  have pos: "0 < x" using assms by (smt (verit) zero_less_power_int)
  have "2 ^ 52 * ?q \<le> x" using assms by (subst (asm) powi_split')
  then have "real_of_int (2 ^ 52) \<le> x / ?q" using q by (simp add: pos_le_divide_eq)
  then have "roundEven (real_of_int (2 ^ 52)) \<le> roundEven (x / ?q)" by (rule roundEven_mono)
  then have "2 ^ 52 \<le> roundEven (x / ?q)" by (simp only: roundEven_of_int)
  then have "real_of_int (2 ^ 52) \<le> real_of_int (roundEven (x / ?q))"
    by (simp only: of_int_le_iff)
  then have "2 ^ 52 \<le> real_of_int (roundEven (x / ?q))" by simp
  then have "2 ^ 52 * ?q \<le> real_of_int (roundEven (x / ?q)) * ?q"
    using q by (simp add: mult_right_mono)
  then show ?thesis using pos by (simp add: round64_def) (subst powi_split', simp)
qed


lemma expo_mono:
  assumes "0 < x" "x \<le> y"
  shows "expo x \<le> expo y"
proof -
  have "log 2 \<bar>x\<bar> \<le> log 2 \<bar>y\<bar>" using assms by (intro log_mono) auto
  then have "\<lfloor>log 2 \<bar>x\<bar>\<rfloor> \<le> \<lfloor>log 2 \<bar>y\<bar>\<rfloor>" by (rule floor_mono)
  then show ?thesis by (simp add: expo_def)
qed

lemma expo_normal:
  assumes "x \<noteq> 0" "- 1022 < expo x"
  shows "2 powi (expo x) \<le> \<bar>x\<bar>"
proof -
  have pos: "0 < \<bar>x\<bar>" using assms(1) by simp
  have e: "expo x = \<lfloor>log 2 \<bar>x\<bar>\<rfloor>" using assms(2) by (simp add: expo_def max_def split: if_splits)
  have "real_of_int (expo x) \<le> log 2 \<bar>x\<bar>" unfolding e by simp
  then have "2 powr real_of_int (expo x) \<le> \<bar>x\<bar>" using pos by (simp add: le_log_iff)
  moreover have "(2::real) powr real_of_int (expo x) = 2 powi (expo x)"
    by (rule powr_real_of_int') auto
  ultimately show ?thesis by simp
qed

lemma round64_mono_pos:
  assumes "0 < x" "x \<le> y"
  shows "round64 x \<le> round64 y"
proof (cases "expo x = expo y")
  case True
  let ?q = "(2::real) powi (expo y - 52)"
  have q: "0 < ?q" by (simp add: zero_less_power_int)
  have "x / ?q \<le> y / ?q" using assms(2) q by (simp add: divide_right_mono)
  then have "roundEven (x / ?q) \<le> roundEven (y / ?q)" by (rule roundEven_mono)
  then have "real_of_int (roundEven (x / ?q)) \<le> real_of_int (roundEven (y / ?q))"
    by (simp only: of_int_le_iff)
  then have "real_of_int (roundEven (x / ?q)) * ?q \<le> real_of_int (roundEven (y / ?q)) * ?q"
    using q by (simp add: mult_right_mono)
  then show ?thesis using assms True by (simp add: round64_def)
next
  case False
  then have lt: "expo x < expo y" using expo_mono[OF assms] by simp
  have y: "0 < y" using assms by simp
  have "- 1022 \<le> expo x" by (simp add: expo_def)
  then have "- 1022 < expo y" using lt by simp
  then have "2 powi (expo y) \<le> \<bar>y\<bar>" using y by (intro expo_normal) auto
  then have "2 powi (expo y) \<le> round64 y" using y by (intro round64_lower) simp
  moreover have "round64 x \<le> 2 powi (expo x + 1)" by (rule round64_upper[OF assms(1)])
  moreover have "(2::real) powi (expo x + 1) \<le> 2 powi (expo y)"
    using lt by (intro power_int_increasing) auto
  ultimately show ?thesis by linarith
qed

lemma round64_mono:
  assumes "x \<le> y"
  shows "round64 x \<le> round64 y"
proof -
  consider "0 < x" | "x \<le> 0" "0 \<le> y" | "y < 0" by linarith
  then show ?thesis
  proof cases
    case 1
    then show ?thesis using assms by (rule round64_mono_pos)
  next
    case 2
    then show ?thesis using round64_nonpos[of x] round64_nonneg[of y] by linarith
  next
    case 3
    have "round64 (- y) \<le> round64 (- x)" using 3 assms by (intro round64_mono_pos) auto
    then show ?thesis by (simp add: round64_minus)
  qed
qed


lemma powi_less_imp_less:
  assumes "(2::real) powi a < 2 powi b"
  shows "a < b"
proof (rule ccontr)
  assume "\<not> a < b"
  then have "(2::real) powi b \<le> 2 powi a" by (intro power_int_increasing) auto
  with assms show False by simp
qed

lemma round64_int_multiple:
  assumes "x = real_of_int m * 2 powi (expo x - 52)"
  shows "round64 x = x"
proof (cases "x = 0")
  case False
  let ?q = "(2::real) powi (expo x - 52)"
  have q: "?q \<noteq> 0" by simp
  have "x / ?q = real_of_int m * ?q / ?q" using assms by simp
  then have "x / ?q = real_of_int m" using q by simp
  then have "roundEven (x / ?q) = m" by simp
  then have "round64 x = real_of_int m * ?q" using False by (simp add: round64_def)
  then show ?thesis using assms by simp
qed simp

lemma round64_repr_less:
  assumes "\<bar>n\<bar> < 2 ^ 53" "- 1074 \<le> k"
  shows "round64 (real_of_int n * 2 powi k) = real_of_int n * 2 powi k"
proof (cases "n = 0")
  case False
  let ?x = "real_of_int n * 2 powi k"
  let ?e = "expo ?x"
  have x0: "?x \<noteq> 0" using False by simp
  have ax: "\<bar>?x\<bar> = real_of_int \<bar>n\<bar> * 2 powi k" by (simp add: abs_mult)
  have "real_of_int \<bar>n\<bar> < real_of_int (2 ^ 53)" using assms(1) by (simp only: of_int_less_iff)
  then have "real_of_int \<bar>n\<bar> * 2 powi k < 2 ^ 53 * 2 powi k" by simp
  also have "(2::real) ^ 53 * 2 powi k = 2 powi (53 + k)"
    by (subst power_int_add) simp_all
  finally have ub: "\<bar>?x\<bar> < 2 powi (53 + k)" unfolding ax .
  have d: "0 \<le> k - ?e + 52"
  proof (cases "?e = - 1022")
    case True
    then show ?thesis using assms(2) by simp
  next
    case False
    have "- 1022 \<le> ?e" by (simp add: expo_def)
    then have "- 1022 < ?e" using False by simp
    then have "2 powi ?e \<le> \<bar>?x\<bar>" using x0 by (intro expo_normal)
    then have "(2::real) powi ?e < 2 powi (53 + k)" using ub by linarith
    then have "?e < 53 + k" by (rule powi_less_imp_less)
    then show ?thesis by simp
  qed
  define j where "j = nat (k - ?e + 52)"
  have j: "int j = k - ?e + 52" using d by (simp add: j_def)
  have "(2::real) powi k = 2 powi (int j + (?e - 52))" using j by simp
  also have "\<dots> = 2 powi (int j) * 2 powi (?e - 52)" by (rule power_int_add) simp
  also have "\<dots> = 2 ^ j * 2 powi (?e - 52)" by simp
  finally have "?x = real_of_int (n * 2 ^ j) * 2 powi (?e - 52)" by simp
  then show ?thesis by (rule round64_int_multiple)
qed simp

lemma round64_repr:
  assumes "\<bar>n\<bar> \<le> 2 ^ 53" "- 1074 \<le> k"
  shows "round64 (real_of_int n * 2 powi k) = real_of_int n * 2 powi k"
proof (cases "\<bar>n\<bar> < 2 ^ 53")
  case True
  then show ?thesis using assms(2) by (rule round64_repr_less)
next
  case False
  then have n: "n = 2 ^ 53 \<or> n = - (2 ^ 53)" using assms(1) by auto
  have p: "(2::real) powi (k + 1) = 2 * 2 powi k"
    by (simp add: power_int_add)
  have a: "round64 (real_of_int (2 ^ 52) * 2 powi (k + 1)) = real_of_int (2 ^ 52) * 2 powi (k + 1)"
    using assms(2) by (intro round64_repr_less) auto
  have b: "round64 (real_of_int (- (2 ^ 52)) * 2 powi (k + 1))
      = real_of_int (- (2 ^ 52)) * 2 powi (k + 1)"
    using assms(2) by (intro round64_repr_less) auto
  from n show ?thesis
  proof
    assume "n = 2 ^ 53"
    then have "real_of_int n * 2 powi k = real_of_int (2 ^ 52) * 2 powi (k + 1)" by (simp add: p)
    then show ?thesis using a by simp
  next
    assume "n = - (2 ^ 53)"
    then have "real_of_int n * 2 powi k = real_of_int (- (2 ^ 52)) * 2 powi (k + 1)"
      by (simp add: p)
    then show ?thesis using b by simp
  qed
qed

lemma roundEven_abs_le:
  assumes "\<bar>y\<bar> \<le> real_of_int m"
  shows "\<bar>roundEven y\<bar> \<le> m"
proof -
  have "roundEven y \<le> roundEven (real_of_int m)" using assms by (intro roundEven_mono) linarith
  moreover have "roundEven (real_of_int (- m)) \<le> roundEven y"
    using assms by (intro roundEven_mono) simp
  ultimately show ?thesis by (simp only: roundEven_of_int)
qed

lemma round64_idem: "round64 (round64 x) = round64 x"
proof (cases "x = 0")
  case False
  let ?q = "(2::real) powi (expo x - 52)"
  have q: "0 < ?q" by (simp add: zero_less_power_int)
  have "\<bar>x\<bar> < 2 ^ 53 * ?q" using abs_less_expo[OF False] by (simp add: powi_split)
  then have "\<bar>x\<bar> / ?q \<le> 2 ^ 53" using q by (simp add: pos_divide_le_eq)
  then have "\<bar>x / ?q\<bar> \<le> real_of_int (2 ^ 53)" using q by (simp add: abs_divide)
  then have n: "\<bar>roundEven (x / ?q)\<bar> \<le> 2 ^ 53" by (rule roundEven_abs_le)
  have k: "- 1074 \<le> expo x - 52" by (simp add: expo_def)
  have "round64 (real_of_int (roundEven (x / ?q)) * ?q) = real_of_int (roundEven (x / ?q)) * ?q"
    using n k by (rule round64_repr)
  then show ?thesis using False by (simp add: round64_def)
qed simp

lemma expo_scale:
  assumes "2 powi (- 1022) \<le> \<bar>x\<bar>" "2 powi (- 1022) \<le> \<bar>2 powi k * x\<bar>"
  shows "expo (2 powi k * x) = expo x + k"
proof -
  have x0: "x \<noteq> 0" using assms(1) by (smt (verit) zero_less_power_int)
  have lo: "2 powi (expo x) \<le> \<bar>x\<bar>" by (rule expo_le_abs[OF assms(1)])
  have hi: "\<bar>x\<bar> < 2 powi (expo x + 1)" by (rule abs_less_expo[OF x0])
  have a: "\<bar>2 powi k * x\<bar> = 2 powi k * \<bar>x\<bar>" by (simp add: abs_mult)
  have p1: "(2::real) powi (expo x + k) = 2 powi k * 2 powi (expo x)"
    by (subst power_int_add) simp_all
  have p2: "(2::real) powi (expo x + k + 1) = 2 powi k * 2 powi (expo x + 1)"
    by (subst power_int_add) (simp_all add: power_int_add)
  have l: "2 powi (expo x + k) \<le> \<bar>2 powi k * x\<bar>" unfolding a p1 using lo by simp
  have h: "\<bar>2 powi k * x\<bar> < 2 powi (expo x + k + 1)" unfolding a p2 using hi by simp
  have "(2::real) powi (- 1022) < 2 powi (expo x + k + 1)" using assms(2) h by linarith
  then have "- 1022 < expo x + k + 1" by (rule powi_less_imp_less)
  then have "- 1022 \<le> expo x + k" by simp
  with l h show ?thesis by (intro expo_eq) auto
qed

lemma round64_scale:
  assumes "2 powi (- 1022) \<le> \<bar>x\<bar>" "2 powi (- 1022) \<le> \<bar>2 powi k * x\<bar>"
  shows "round64 (2 powi k * x) = 2 powi k * round64 x"
proof -
  have x0: "x \<noteq> 0" using assms(1) by (smt (verit) zero_less_power_int)
  have e: "expo (2 powi k * x) = expo x + k" by (rule expo_scale[OF assms])
  have "(2::real) powi (expo x + k - 52) = 2 powi (k + (expo x - 52))" by (simp add: algebra_simps)
  also have "\<dots> = 2 powi k * 2 powi (expo x - 52)" by (rule power_int_add) simp
  finally have p: "(2::real) powi (expo x + k - 52) = 2 powi k * 2 powi (expo x - 52)" .
  show ?thesis using x0 by (simp add: round64_def e p)
qed

section \<open>Properties of the arithmetic\<close>

lemma ofReal_zero [simp]: "ofReal 0 = Fin 0"
  by (simp add: ofReal_def)

lemma ofReal_Fin:
  assumes "round64 x = r" "r \<noteq> 0" "\<bar>r\<bar> < 2 ^ 1024"
  shows "ofReal x = Fin r"
  using assms by (simp add: ofReal_def Let_def)

lemma ofReal_exact:
  assumes "\<bar>n\<bar> \<le> 2 ^ 53" "- 1074 \<le> k" "k \<le> 970"
  shows "ofReal (real_of_int n * 2 powi k) = Fin (real_of_int n * 2 powi k)"
proof (cases "n = 0")
  case False
  let ?x = "real_of_int n * 2 powi k"
  have r: "round64 ?x = ?x" using assms(1,2) by (rule round64_repr)
  have "real_of_int \<bar>n\<bar> \<le> real_of_int (2 ^ 53)" using assms(1) by (simp only: of_int_le_iff)
  then have "\<bar>?x\<bar> \<le> 2 ^ 53 * 2 powi k" by (simp add: abs_mult)
  also have "(2::real) ^ 53 * 2 powi k = 2 powi (53 + k)" by (subst power_int_add) simp_all
  also have "\<dots> \<le> 2 powi 1023" using assms(3) by (intro power_int_increasing) auto
  also have "\<dots> < 2 ^ 1024" by simp
  finally have "\<bar>?x\<bar> < 2 ^ 1024" .
  moreover have "?x \<noteq> 0" using False by simp
  ultimately show ?thesis using r by (intro ofReal_Fin) auto
qed simp

lemma ofReal_of_int:
  assumes "\<bar>n\<bar> \<le> 2 ^ 53"
  shows "ofReal (real_of_int n) = Fin (real_of_int n)"
  using ofReal_exact[OF assms, of 0] by simp

lemma ofReal_numeral [simp]:
  "numeral w \<le> (2::int) ^ 53 \<Longrightarrow> ofReal (numeral w) = Fin (numeral w)"
  using ofReal_of_int[of "numeral w"] by simp

lemma ofReal_one [simp]: "ofReal 1 = Fin 1"
  using ofReal_of_int[of 1] by simp

lemma ofReal_eval:
  assumes "2 powi e \<le> \<bar>x\<bar>" "\<bar>x\<bar> < 2 powi (e + 1)" "- 1022 \<le> e" "e \<le> 1022"
  shows "ofReal x = Fin (real_of_int (roundEven (x / 2 powi (e - 52))) * 2 powi (e - 52))"
proof -
  have x0: "x \<noteq> 0" using assms(1) by (smt (verit) zero_less_power_int)
  have ex: "expo x = e" by (rule expo_eq[OF assms(1-3)])
  have ev: "round64 x = real_of_int (roundEven (x / 2 powi (e - 52))) * 2 powi (e - 52)"
    by (rule round64_eval[OF assms(1-3)])
  have lo: "2 powi e \<le> \<bar>round64 x\<bar>"
  proof (cases "0 < x")
    case True
    then show ?thesis using round64_lower[of x] assms(1) ex by simp
  next
    case False
    then have "2 powi (expo (- x)) \<le> round64 (- x)"
      using x0 assms(1) ex by (intro round64_lower) (simp add: expo_def)
    then show ?thesis using ex by (simp add: round64_minus expo_def)
  qed
  have hi: "\<bar>round64 x\<bar> \<le> 2 powi (e + 1)"
  proof (cases "0 < x")
    case True
    then show ?thesis using round64_upper[of x] round64_nonneg[of x] ex by simp
  next
    case False
    then have "round64 (- x) \<le> 2 powi (expo (- x) + 1)" using x0 by (intro round64_upper) simp
    moreover have "0 \<le> round64 (- x)" using False by (intro round64_nonneg) simp
    ultimately show ?thesis using ex by (simp add: round64_minus expo_def)
  qed
  have "(2::real) powi (e + 1) \<le> 2 powi 1023" using assms(4) by (intro power_int_increasing) auto
  also have "\<dots> < 2 ^ 1024" by simp
  finally have "\<bar>round64 x\<bar> < 2 ^ 1024" using hi by linarith
  moreover have "round64 x \<noteq> 0" using lo by (smt (verit) zero_less_power_int)
  ultimately have "ofReal x = Fin (round64 x)" by (intro ofReal_Fin) auto
  then show ?thesis using ev by simp
qed

lemma fadd_Fin:
  "fadd (Fin a) (Fin b) = (if a + b = 0 then Fin 0 else ofReal (a + b))"
  by (simp add: fadd_def)

lemma fsub_Fin:
  "fsub (Fin a) (Fin b) = (if a - b = 0 then Fin 0 else ofReal (a - b))"
  by (simp add: fsub_def fadd_def)

lemma fmul_Fin:
  "fmul (Fin a) (Fin b) =
     (if a * b = 0 then signedZero ((a < 0) \<noteq> (b < 0)) else ofReal (a * b))"
  by (simp add: fmul_def)

lemma fdiv_Fin:
  "b \<noteq> 0 \<Longrightarrow> fdiv (Fin a) (Fin b) =
     (if a = 0 then signedZero (b < 0) else ofReal (a / b))"
  by (auto simp: fdiv_def)

lemma flt_Fin [simp]: "flt (Fin a) (Fin b) = (a < b)"
  by (simp add: flt_def)

lemma fgt_Fin [simp]: "fgt (Fin a) (Fin b) = (b < a)"
  by (simp add: fgt_def)

section \<open>Properties of the iteration engine\<close>

lemma ln2_bounds: "1 / 2 \<le> ln (2::real)" "ln (2::real) \<le> 1"
proof -
  have "exp (1 / 2 :: real) ^ 2 = exp 1" by (simp add: power2_eq_square flip: exp_add)
  also have "\<dots> \<le> 2 ^ 2" using exp_le by simp
  finally have "exp (1 / 2 :: real) \<le> 2" by (rule power2_le_imp_le) simp
  then have "ln (exp (1 / 2 :: real)) \<le> ln 2" by (subst ln_le_cancel_iff) auto
  then show "1 / 2 \<le> ln (2::real)" by simp
  show "ln (2::real) \<le> 1" using ln_2_less_1 by simp
qed

lemma round64_powi: "- 1074 \<le> k \<Longrightarrow> round64 (2 powi k) = 2 powi k"
  using round64_repr[of 1 k] by simp

lemma round64_power2 [simp]: "round64 (2 ^ n) = 2 ^ n"
  using round64_powi[of "int n"] by simp

lemma round64_one [simp]: "round64 1 = 1"
  using round64_power2[of 0] by simp

lemma round64_half: "round64 (1 / 2) = 1 / 2"
  using round64_powi[of "- 1"] by (simp add: power_int_minus)

lemma ln2d_bounds: "1 / 2 \<le> ln2d" "ln2d \<le> 1"
  using round64_mono[OF ln2_bounds(1)] round64_mono[OF ln2_bounds(2)]
  by (simp_all add: ln2d_def round64_half)

lemma ln2d_pos: "0 < ln2d"
  using ln2d_bounds(1) by simp

lemma tiny_le_half: "(2::real) powi (- 1022) \<le> 1 / 2"
proof -
  have "(2::real) powi (- 1022) \<le> 2 powi (- 1)" by (intro power_int_increasing) auto
  then show ?thesis by (simp add: power_int_minus)
qed

lemma round64_scale_nat:
  assumes "1 / 2 \<le> x"
  shows "round64 (2 ^ k * x) = 2 ^ k * round64 x"
proof -
  have a: "2 powi (- 1022) \<le> \<bar>x\<bar>" using assms tiny_le_half by linarith
  have x: "0 < x" using assms by simp
  have "1 * x \<le> 2 ^ k * x" using x by (intro mult_right_mono) auto
  moreover have "\<bar>2 powi (int k) * x\<bar> = 2 ^ k * x" using x by (simp add: abs_mult)
  moreover have "2 powi (- 1022) \<le> x" using a x by simp
  ultimately have b: "2 powi (- 1022) \<le> \<bar>2 powi (int k) * x\<bar>" by linarith
  show ?thesis using round64_scale[OF a b] by simp
qed

lemma scale_ln2: "round64 (2 ^ k * ln 2) = 2 ^ k * ln2d"
  unfolding ln2d_def by (rule round64_scale_nat[OF ln2_bounds(1)])

lemma scale_ln2d: "round64 (2 ^ k * ln2d) = 2 ^ k * ln2d"
  using round64_scale_nat[OF ln2d_bounds(1), of k] by (simp add: ln2d_def round64_idem)


lemma escapeRatio_power: "escapeRatio (2 ^ (2 * 2 ^ k)) = 2 ^ k"
proof -
  have "ln ((2::real) ^ (2 * 2 ^ k)) = 2 ^ (k + 1) * ln 2" by (simp add: ln_realpow)
  then have "round64 (ln ((2::real) ^ (2 * 2 ^ k))) = 2 ^ (k + 1) * ln2d"
    by (simp only: scale_ln2)
  then have "round64 (round64 (ln ((2::real) ^ (2 * 2 ^ k))) / 2) = 2 ^ k * ln2d"
    by (simp add: scale_ln2d)
  then show ?thesis using ln2d_pos by (simp add: escapeRatio_def)
qed





lemma smoothNu_power: "smoothNu (2 ^ (2 * 2 ^ (2 ^ j))) = 2 ^ j"
proof -
  have "ln ((2::real) ^ (2 ^ j)) = 2 ^ j * ln 2" by (simp add: ln_realpow)
  then have "round64 (ln ((2::real) ^ (2 ^ j))) = 2 ^ j * ln2d" by (simp only: scale_ln2)
  then show ?thesis using ln2d_pos by (simp add: smoothNu_def escapeRatio_power)
qed


lemma smoothNu_256: "smoothNu 256 = 2"
  using smoothNu_power[of 1] by simp

lemma smoothNu_2_32: "smoothNu (2 ^ 32) = 4"
  using smoothNu_power[of 2] by simp

lemma ofReal_nonneg:
  assumes "0 \<le> x" "round64 x < 2 ^ 1024"
  shows "ofReal x = Fin (round64 x)"
  using assms round64_nonneg[OF assms(1)] by (simp add: ofReal_def Let_def)

lemma round64_le_power2: "x \<le> 2 ^ n \<Longrightarrow> round64 x \<le> 2 ^ n"
  using round64_mono[of x "2 ^ n"] by simp







lemma round64_abs: "round64 \<bar>x\<bar> = \<bar>round64 x\<bar>"
proof (cases "0 \<le> x")
  case True
  then show ?thesis using round64_nonneg[of x] by simp
next
  case False
  then show ?thesis using round64_nonpos[of x] by (simp add: round64_minus)
qed

lemma round64_abs_le_power2:
  assumes "\<bar>x\<bar> \<le> 2 ^ n"
  shows "\<bar>round64 x\<bar> \<le> 2 ^ n"
  using round64_le_power2[OF assms] by (simp add: round64_abs)

lemma finite_cases:
  assumes "isFinite a"
  obtains r where "a = Fin r" | "a = NZero"
  using assms by (cases a) auto

lemma ofReal_val:
  assumes "\<bar>round64 x\<bar> < 2 ^ 1024"
  shows "isFinite (ofReal x)" "val (ofReal x) = round64 x"
  using assms by (auto simp: ofReal_def Let_def)

lemma fadd_val:
  assumes "isFinite a" "isFinite b" "\<bar>round64 (val a + val b)\<bar> < 2 ^ 1024"
  shows "isFinite (fadd a b)" "val (fadd a b) = round64 (val a + val b)"
proof -
  show "isFinite (fadd a b)"
    using assms ofReal_val(1)[OF assms(3)] by (auto simp: fadd_def)
  show "val (fadd a b) = round64 (val a + val b)"
    using assms ofReal_val(2)[OF assms(3)] by (auto simp: fadd_def)
qed

lemma fneg_val: "isFinite a \<Longrightarrow> isFinite (fneg a) \<and> val (fneg a) = - val a"
  by (cases a) auto

lemma fsub_val:
  assumes "isFinite a" "isFinite b" "\<bar>round64 (val a - val b)\<bar> < 2 ^ 1024"
  shows "isFinite (fsub a b)" "val (fsub a b) = round64 (val a - val b)"
  using fadd_val[of a "fneg b"] fneg_val[OF assms(2)] assms by (simp_all add: fsub_def)

lemma fmul_val:
  assumes "isFinite a" "isFinite b" "\<bar>round64 (val a * val b)\<bar> < 2 ^ 1024"
  shows "isFinite (fmul a b)" "val (fmul a b) = round64 (val a * val b)"
proof -
  show "isFinite (fmul a b)"
    using assms ofReal_val(1)[OF assms(3)] by (auto simp: fmul_def signedZero_def)
  show "val (fmul a b) = round64 (val a * val b)"
    using assms ofReal_val(2)[OF assms(3)] by (auto simp: fmul_def signedZero_def)
qed

lemma fdiv_val:
  assumes "isFinite a" "isFinite b" "val b \<noteq> 0" "\<bar>round64 (val a / val b)\<bar> < 2 ^ 1024"
  shows "isFinite (fdiv a b)" "val (fdiv a b) = round64 (val a / val b)"
proof -
  show "isFinite (fdiv a b)"
    using assms ofReal_val(1)[OF assms(4)] by (auto simp: fdiv_def signedZero_def)
  show "val (fdiv a b) = round64 (val a / val b)"
    using assms ofReal_val(2)[OF assms(4)] by (auto simp: fdiv_def signedZero_def)
qed

lemma Math_abs_val: "isFinite a \<Longrightarrow> isFinite (Math_abs a) \<and> val (Math_abs a) = \<bar>val a\<bar>"
  by (cases a) auto

lemma flt_val: "isFinite a \<Longrightarrow> isFinite b \<Longrightarrow> flt a b = (val a < val b)"
  by (cases a; cases b) (auto simp: flt_def)

lemma fgt_val: "isFinite a \<Longrightarrow> isFinite b \<Longrightarrow> fgt a b = (val b < val a)"
  by (simp add: fgt_def flt_val)

lemma finite_nonzero: "isFinite a \<Longrightarrow> val a \<noteq> 0 \<Longrightarrow> a = Fin (val a)"
  by (cases a) auto

lemma round64_rel_lower:
  assumes "2 powi (- 1022) \<le> x"
  shows "x * (1 - 1 / 2 ^ 53) \<le> round64 x"
proof -
  let ?q = "(2::real) powi (expo x - 52)"
  have pos: "0 < x" using assms by (smt (verit) zero_less_power_int)
  have q: "0 < ?q" by (simp add: zero_less_power_int)
  have a: "2 powi (expo x) \<le> x" using expo_le_abs[of x] assms pos by simp
  have e: "(2::real) powi (expo x) = 2 ^ 52 * ?q" by (rule powi_split')
  have "x / ?q - 1 / 2 \<le> real_of_int (roundEven (x / ?q))"
    using roundEven_bounds[of "x / ?q"] by linarith
  then have "(x / ?q - 1 / 2) * ?q \<le> real_of_int (roundEven (x / ?q)) * ?q"
    using q by (simp add: mult_right_mono)
  then have "x - ?q / 2 \<le> round64 x"
    using pos q by (simp add: round64_def algebra_simps)
  moreover have "?q / 2 \<le> x / 2 ^ 53" using a unfolding e by simp
  ultimately show ?thesis by (simp add: algebra_simps)
qed

lemma literal_hundredth:
  "round64 (1 / 100) = 5764607523034235 / 576460752303423488"
  by (subst round64_eval[of "- 7"]) (simp_all add: roundEven_def Let_def power_int_minus)

lemma literal_fifth:
  "round64 (1 / 5) = 3602879701896397 / 18014398509481984"
  by (subst round64_eval[of "- 3"]) (simp_all add: roundEven_def Let_def power_int_minus)

lemma ofReal_hundredth: "ofReal (1 / 100) = Fin (round64 (1 / 100))"
  by (rule ofReal_nonneg) (simp_all add: literal_hundredth)

lemma ofReal_fifth: "ofReal (1 / 5) = Fin (round64 (1 / 5))"
  by (rule ofReal_nonneg) (simp_all add: literal_fifth)

lemma big_power: "(2::real) ^ 1002 < 2 ^ 1024"
  by (rule power_strict_increasing) simp_all

lemma zoom_test_exact:
  assumes "isFinite z" "isFinite zo" "0 \<le> val z" "val z \<le> 2 ^ 1000"
    and "\<bar>val z - val zo\<bar> \<le> val z * (1 / 100)"
  shows "\<not> fgt (Math_abs (fsub z zo)) (fmul z (ofReal (1 / 100)))"
proof -
  let ?c = "round64 (1 / 100)"
  have c: "1 / 100 \<le> ?c" "?c \<le> 1" by (simp_all add: literal_hundredth)
  have up: "(2::real) ^ 1000 \<le> 2 ^ 1002" by (rule power_increasing) simp_all
  have d: "\<bar>val z - val zo\<bar> \<le> val z * ?c"
    using assms(3,5) c(1) by (smt (verit) mult_left_mono)
  have "val z * ?c \<le> val z * 1" using assms(3) c(2) by (intro mult_left_mono) auto
  then have zc: "\<bar>val z * ?c\<bar> \<le> 2 ^ 1002" using assms(3,4) c up by simp
  then have dd: "\<bar>val z - val zo\<bar> \<le> 2 ^ 1002" using d by simp
  have b1: "\<bar>round64 (val z - val zo)\<bar> < 2 ^ 1024"
    using round64_abs_le_power2[OF dd] big_power by linarith
  have b2: "\<bar>round64 (val z * ?c)\<bar> < 2 ^ 1024"
    using round64_abs_le_power2[OF zc] big_power by linarith
  have s: "isFinite (fsub z zo)" "val (fsub z zo) = round64 (val z - val zo)"
    using fsub_val[OF assms(1,2) b1] by simp_all
  have a: "isFinite (Math_abs (fsub z zo))"
    "val (Math_abs (fsub z zo)) = round64 \<bar>val z - val zo\<bar>"
    using Math_abs_val[OF s(1)] s(2) by (simp_all add: round64_abs)
  have m: "isFinite (fmul z (Fin ?c))" "val (fmul z (Fin ?c)) = round64 (val z * ?c)"
    using fmul_val[of z "Fin ?c"] assms(1) b2 by simp_all
  have "round64 \<bar>val z - val zo\<bar> \<le> round64 (val z * ?c)" using d by (rule round64_mono)
  then show ?thesis
    unfolding ofReal_hundredth using a m by (simp add: fgt_val)
qed

lemma pan_test_exact:
  assumes "isFinite c" "isFinite ov" "isFinite z" "1 / 2 ^ 1000 \<le> val z" "val z \<le> 2 ^ 1000"
    and "\<bar>val c - val ov\<bar> \<le> 4 / val z * (1 / 5) * (1 - 1 / 2 ^ 53)"
  shows "\<not> fgt (Math_abs (fsub c ov)) (fmul (fdiv (Fin 4) z) (ofReal (1 / 5)))"
proof -
  let ?c = "round64 (1 / 5)"
  let ?S = "round64 (4 / val z)"
  have c: "1 / 5 \<le> ?c" "?c \<le> 1" by (simp_all add: literal_fifth)
  have zp: "0 < val z" using assms(4) by (smt (verit) divide_pos_pos zero_less_power)
  have "4 / val z \<le> 4 / (1 / 2 ^ 1000)" using assms(4) zp by (intro divide_left_mono) auto
  also have "\<dots> = 2 ^ 1002" by simp
  finally have su: "4 / val z \<le> 2 ^ 1002" .
  have "(2::real) powi (- 1022) \<le> 2 powi (- 998)" by (intro power_int_increasing) auto
  also have "\<dots> = 4 / 2 ^ 1000" by (simp add: power_int_minus field_simps)
  also have "\<dots> \<le> 4 / val z" using assms(5) zp by (intro divide_left_mono) auto
  finally have sl: "2 powi (- 1022) \<le> 4 / val z" .
  have Sl: "4 / val z * (1 - 1 / 2 ^ 53) \<le> ?S" by (rule round64_rel_lower[OF sl])
  have Su: "?S \<le> 2 ^ 1002" by (rule round64_le_power2[OF su])
  have Sp: "0 \<le> ?S" using zp by (intro round64_nonneg) simp
  have b0: "\<bar>?S\<bar> < 2 ^ 1024" using Su Sp big_power by simp
  have f: "isFinite (fdiv (Fin 4) z)" "val (fdiv (Fin 4) z) = ?S"
    using fdiv_val[of "Fin 4" z] assms(3) zp b0 by simp_all
  have "?S * ?c \<le> ?S * 1" using Sp c(2) by (intro mult_left_mono) auto
  then have sc: "\<bar>?S * ?c\<bar> \<le> 2 ^ 1002" using Sp Su c by simp
  have b2: "\<bar>round64 (?S * ?c)\<bar> < 2 ^ 1024"
    using round64_abs_le_power2[OF sc] big_power by linarith
  have m: "isFinite (fmul (fdiv (Fin 4) z) (Fin ?c))"
    "val (fmul (fdiv (Fin 4) z) (Fin ?c)) = round64 (?S * ?c)"
    using fmul_val[of "fdiv (Fin 4) z" "Fin ?c"] f b2 by simp_all
  have "4 / val z * (1 / 5) * (1 - 1 / 2 ^ 53) = (4 / val z * (1 - 1 / 2 ^ 53)) * (1 / 5)"
    by simp
  also have "\<dots> \<le> ?S * (1 / 5)" using Sl by (intro mult_right_mono) auto
  also have "\<dots> \<le> ?S * ?c" using Sp c(1) by (intro mult_left_mono) auto
  finally have d: "\<bar>val c - val ov\<bar> \<le> ?S * ?c" using assms(6) by simp
  then have dd: "\<bar>val c - val ov\<bar> \<le> 2 ^ 1002" using sc by simp
  have b1: "\<bar>round64 (val c - val ov)\<bar> < 2 ^ 1024"
    using round64_abs_le_power2[OF dd] big_power by linarith
  have s: "isFinite (fsub c ov)" "val (fsub c ov) = round64 (val c - val ov)"
    using fsub_val[OF assms(1,2) b1] by simp_all
  have a: "isFinite (Math_abs (fsub c ov))"
    "val (Math_abs (fsub c ov)) = round64 \<bar>val c - val ov\<bar>"
    using Math_abs_val[OF s(1)] s(2) by (simp_all add: round64_abs)
  have "round64 \<bar>val c - val ov\<bar> \<le> round64 (?S * ?c)" using d by (rule round64_mono)
  then show ?thesis
    unfolding ofReal_fifth using a m by (simp add: fgt_val)
qed






section \<open>Properties of the tile grid\<close>

lemma length_generateTiles: "length (generateTiles X Y) = X * Y"
  by (simp add: generateTiles_def length_concat comp_def sum_list_triv)

lemma set_generateTiles: "set (generateTiles X Y) = {0..<X} \<times> {0..<Y}"
  by (auto simp: generateTiles_def)

lemma distinct_generateTiles: "distinct (generateTiles X Y)"
proof (cases "X = 0")
  case True
  have "distinct (concat (map (\<lambda>ty::nat. ([] :: (nat \<times> nat) list)) [0..<Y]))"
    by (induction Y) simp_all
  with True show ?thesis by (simp add: generateTiles_def)
next
  case False
  then obtain x where "x < X" by auto
  then show ?thesis
    unfolding generateTiles_def
    by (intro distinct_concat) (auto simp: distinct_map inj_on_def)
qed

lemma length_sortTiles: "length (sortTiles X Y) = X * Y"
  by (simp add: sortTiles_def length_generateTiles)

lemma set_sortTiles: "set (sortTiles X Y) = {0..<X} \<times> {0..<Y}"
  by (simp add: sortTiles_def set_generateTiles)

lemma distinct_sortTiles: "distinct (sortTiles X Y)"
  by (simp add: sortTiles_def distinct_generateTiles)

lemma less_tileCount_iff:
  assumes "0 < ts"
  shows "tx < tileCount cw ts \<longleftrightarrow> tx * ts < cw"
proof -
  have "tx < tileCount cw ts \<longleftrightarrow> int tx < \<lceil>real cw / real ts\<rceil>"
    by (simp add: tileCount_def zless_nat_eq_int_zless)
  also have "\<dots> \<longleftrightarrow> real tx < real cw / real ts"
    by (simp add: less_ceiling_iff)
  also have "\<dots> \<longleftrightarrow> real tx * real ts < real cw"
    using assms by (simp add: pos_less_divide_eq)
  also have "\<dots> \<longleftrightarrow> tx * ts < cw"
    by (metis of_nat_less_iff of_nat_mult)
  finally show ?thesis .
qed

lemma tileRect_eq:
  "tileRect ts cw ch t = (fst t * ts, snd t * ts, min ts (cw - fst t * ts), min ts (ch - snd t * ts))"
  by (simp add: tileRect_def Let_def)

lemma span_unique:
  fixes ts :: nat
  assumes "0 < ts" "px < cw"
  shows "(tx * ts \<le> px \<and> px < tx * ts + min ts (cw - tx * ts)) \<longleftrightarrow> tx = px div ts"
proof
  assume a: "tx * ts \<le> px \<and> px < tx * ts + min ts (cw - tx * ts)"
  then have "tx * ts \<le> px" "px < (tx + 1) * ts" by (auto simp: algebra_simps)
  then have "tx \<le> px div ts" "px div ts < tx + 1"
    using assms(1) by (simp_all add: less_eq_div_iff_mult_less_eq div_less_iff_less_mult)
  then show "tx = px div ts" by simp
next
  assume e: "tx = px div ts"
  have 1: "px div ts * ts \<le> px" by simp
  have 2: "px < px div ts * ts + ts" using assms(1)
    by (metis add.commute dividend_less_div_times)
  show "tx * ts \<le> px \<and> px < tx * ts + min ts (cw - tx * ts)"
    using 1 2 assms(2) unfolding e by (auto simp: min_def)
qed

lemma pixelInTile_iff:
  assumes "0 < ts" "px < cw" "py < ch"
  shows "pixelInTile px py (tileRect ts cw ch t) \<longleftrightarrow> t = (px div ts, py div ts)"
proof -
  have "pixelInTile px py (tileRect ts cw ch t) \<longleftrightarrow>
      (fst t * ts \<le> px \<and> px < fst t * ts + min ts (cw - fst t * ts)) \<and>
      (snd t * ts \<le> py \<and> py < snd t * ts + min ts (ch - snd t * ts))"
    by (auto simp: pixelInTile_def tileRect_eq)
  also have "\<dots> \<longleftrightarrow> fst t = px div ts \<and> snd t = py div ts"
    using span_unique[OF assms(1,2)] span_unique[OF assms(1,3)] by simp
  finally show ?thesis by (cases t) auto
qed

lemma grid_rects:
  assumes "0 < ts" "t \<in> set (sortTiles (tileCount cw ts) (tileCount ch ts))"
  shows "\<exists>x y w h. tileRect ts cw ch t = (x, y, w, h)
          \<and> x = fst t * ts \<and> y = snd t * ts
          \<and> w = min ts (cw - x) \<and> h = min ts (ch - y)
          \<and> 0 < w \<and> 0 < h \<and> x + w \<le> cw \<and> y + h \<le> ch"
proof -
  obtain a b where t: "t = (a, b)" by (cases t)
  have "a < tileCount cw ts" "b < tileCount ch ts"
    using assms(2) by (simp_all add: t set_sortTiles)
  then have "fst t * ts < cw \<and> snd t * ts < ch"
    using less_tileCount_iff[OF assms(1)] by (simp add: t)
  then show ?thesis using assms(1) by (auto simp: tileRect_eq)
qed

lemma grid_cover:
  assumes "0 < ts" "px < cw" "py < ch"
  shows "\<exists>!i. i < length (sortTiles (tileCount cw ts) (tileCount ch ts))
            \<and> pixelInTile px py
                 (tileRect ts cw ch (sortTiles (tileCount cw ts) (tileCount ch ts) ! i))"
proof -
  let ?grid = "sortTiles (tileCount cw ts) (tileCount ch ts)"
  let ?t = "(px div ts, py div ts)"
  have mem: "t \<in> set ?grid \<longleftrightarrow> fst t * ts < cw \<and> snd t * ts < ch" for t
    using less_tileCount_iff[OF assms(1)] by (cases t) (simp add: set_sortTiles)
  have d: "distinct ?grid" by (simp add: distinct_sortTiles)
  have "px div ts * ts < cw" by (rule le_less_trans[OF _ assms(2)]) simp
  moreover have "py div ts * ts < ch" by (rule le_less_trans[OF _ assms(3)]) simp
  ultimately have "?t \<in> set ?grid" by (simp add: mem)
  then obtain i where i: "i < length ?grid" "?grid ! i = ?t" by (auto simp: in_set_conv_nth)
  show ?thesis
  proof (rule ex1I[of _ i])
    show "i < length ?grid \<and> pixelInTile px py (tileRect ts cw ch (?grid ! i))"
      using i pixelInTile_iff[OF assms] by simp
  next
    fix j assume "j < length ?grid \<and> pixelInTile px py (tileRect ts cw ch (?grid ! j))"
    then have "j < length ?grid" "?grid ! j = ?t"
      using pixelInTile_iff[OF assms] by simp_all
    then show "j = i" using i d by (metis nth_eq_iff_index_eq)
  qed
qed

lemma sortTiles_3_3:
  "sortTiles 3 3 = [(1, 1), (1, 0), (0, 1), (2, 1), (1, 2), (0, 0), (2, 0), (0, 2), (2, 2)]"
  by (simp add: sortTiles_def generateTiles_def tileDistance_def upt_conv_Cons)

section \<open>Properties of the render scheduler\<close>

lemma responseAt_cong:
  "request b' = request b \<Longrightarrow> tiles b' = tiles b \<Longrightarrow> totalTiles b' = totalTiles b
   \<Longrightarrow> responseAt b' = responseAt b"
  by (rule ext) (simp add: responseAt_def)

lemma batchLoop_active:
  assumes "currentRequestId w = requestId (request b)" "tilesComputed b = i" "i \<le> e"
  shows "batchLoop w b i e = (b\<lparr>tilesComputed := e\<rparr>, map (responseAt b) [i..<e], False)"
  using assms
proof (induction w b i e rule: batchLoop.induct)
  case (1 w b i batchEnd)
  show ?case
  proof (cases "i < batchEnd")
    case False
    with 1(4) have "i = batchEnd" by simp
    with 1(3) show ?thesis by (subst batchLoop.simps) simp
  next
    case True
    obtain tileX tileY tileWidth tileHeight where r:
      "tileRect (tileSize (quality (request b))) (canvasWidth (request b))
         (canvasHeight (request b)) (tiles b ! i) = (tileX, tileY, tileWidth, tileHeight)"
      by (metis prod_cases4)
    let ?b' = "b\<lparr>tilesComputed := tilesComputed b + 1\<rparr>"
    have ih: "batchLoop w ?b' (i + 1) batchEnd
          = (?b'\<lparr>tilesComputed := batchEnd\<rparr>, map (responseAt ?b') [i + 1..<batchEnd], False)"
      using 1(1)[OF True _ refl r[symmetric] refl refl refl refl] 1(2,3) True r
      by simp
    have c: "responseAt ?b' = responseAt b" by (rule responseAt_cong) simp_all
    show ?thesis
      using True 1(2,3) r ih c
      by (subst batchLoop.simps) (simp add: Let_def responseAt_def upt_conv_Cons)
  qed
qed

lemma batchLoop_cancelled:
  assumes "currentRequestId w \<noteq> requestId (request b)"
  shows "batchLoop w b i e = (b, [], i < e)"
  using assms by (subst batchLoop.simps) simp

lemma processBatch_cancelled:
  "currentRequestId w \<noteq> requestId (request b) \<Longrightarrow> processBatch w b = (w, [])"
  by (simp add: processBatch_def)

lemma processBatch_active:
  assumes "currentRequestId w = requestId (request b)" "tilesComputed b = tileIndex b"
  shows "processBatch w b =
     ((if batchEndOf b < length (tiles b)
       then w\<lparr>timers := timers w @ [b\<lparr>tilesComputed := batchEndOf b, tileIndex := batchEndOf b\<rparr>]\<rparr>
       else w),
      map (responseAt b) [tileIndex b..<batchEndOf b])"
proof -
  have le: "tileIndex b \<le> batchEndOf b \<or> batchEndOf b = length (tiles b)"
    by (auto simp: batchEndOf_def)
  show ?thesis
  proof (cases "tileIndex b \<le> batchEndOf b")
    case True
    have "batchLoop w b (tileIndex b) (batchEndOf b)
        = (b\<lparr>tilesComputed := batchEndOf b\<rparr>, map (responseAt b) [tileIndex b..<batchEndOf b], False)"
      by (rule batchLoop_active[OF assms True])
    then show ?thesis using assms
      by (simp add: processBatch_def Let_def batchEndOf_def[symmetric])
  next
    case False
    then have e: "batchEndOf b = length (tiles b)" "\<not> tileIndex b < batchEndOf b"
      using le by auto
    have "batchLoop w b (tileIndex b) (batchEndOf b) = (b, [], False)"
      using e by (subst batchLoop.simps) simp
    then show ?thesis using assms e False
      by (simp add: processBatch_def Let_def batchEndOf_def[symmetric])
  qed
qed

lemma runWorker_append:
  "runWorker w (xs @ ys) =
     (case runWorker w xs of
        (None, out) \<Rightarrow> (None, out)
      | (Some w', out) \<Rightarrow> (let (r, out') = runWorker w' ys in (r, out @ out')))"
  by (induction xs arbitrary: w) (auto split: option.splits prod.splits)

lemma run_idle:
  "timers w = [] \<Longrightarrow> runWorker w (replicate n TimerFires) = (Some w, [])"
  by (induction n) (auto simp: workerStep_def)

lemma run_skip_stale:
  assumes "timers w = old @ rest" "\<forall>b \<in> set old. requestId (request b) \<noteq> currentRequestId w"
  shows "runWorker w (replicate (length old) TimerFires) = (Some (w\<lparr>timers := rest\<rparr>), [])"
  using assms
proof (induction old arbitrary: w)
  case Nil
  then show ?case by simp
next
  case (Cons b old)
  have "processBatch (w\<lparr>timers := old @ rest\<rparr>) b = (w\<lparr>timers := old @ rest\<rparr>, [])"
    using Cons.prems by (intro processBatch_cancelled) auto
  moreover have "runWorker (w\<lparr>timers := old @ rest\<rparr>) (replicate (length old) TimerFires)
      = (Some (w\<lparr>timers := old @ rest, timers := rest\<rparr>), [])"
    using Cons.prems by (intro Cons.IH) auto
  ultimately show ?case using Cons.prems by (simp add: workerStep_def)
qed

lemma run_ticks:
  assumes "0 < tilesPerFrame (quality (request b))"
    and "currentRequestId w = requestId (request b)"
    and "tilesComputed b = tileIndex b" and "tileIndex b < length (tiles b)"
    and "timers w = [b]" and "length (tiles b) - tileIndex b \<le> n"
  shows "runWorker w (replicate n TimerFires)
       = (Some (w\<lparr>timers := []\<rparr>), map (responseAt b) [tileIndex b..<length (tiles b)])"
  using assms
proof (induction n arbitrary: w b)
  case 0
  then show ?case by simp
next
  case (Suc n)
  let ?w0 = "w\<lparr>timers := []\<rparr>"
  let ?e = "batchEndOf b"
  let ?b' = "b\<lparr>tilesComputed := ?e, tileIndex := ?e\<rparr>"
  have step: "workerStep w TimerFires = Some (processBatch ?w0 b)"
    using Suc.prems(5) by (simp add: workerStep_def)
  have pb: "processBatch ?w0 b =
     ((if ?e < length (tiles b) then ?w0\<lparr>timers := timers ?w0 @ [?b']\<rparr> else ?w0),
      map (responseAt b) [tileIndex b..<?e])"
    using Suc.prems(2,3) by (intro processBatch_active) auto
  have e1: "tileIndex b < ?e" "?e \<le> length (tiles b)"
    using Suc.prems(1,4) by (auto simp: batchEndOf_def)
  show ?case
  proof (cases "?e < length (tiles b)")
    case True
    let ?w1 = "?w0\<lparr>timers := timers ?w0 @ [?b']\<rparr>"
    have c: "responseAt ?b' = responseAt b" by (rule responseAt_cong) simp_all
    have "runWorker ?w1 (replicate n TimerFires)
        = (Some (?w1\<lparr>timers := []\<rparr>), map (responseAt ?b') [tileIndex ?b'..<length (tiles ?b')])"
      using Suc.prems e1 True by (intro Suc.IH) auto
    then have ih: "runWorker ?w1 (replicate n TimerFires)
        = (Some ?w0, map (responseAt b) [?e..<length (tiles b)])"
      using c by simp
    have "[tileIndex b..<length (tiles b)] = [tileIndex b..<?e] @ [?e..<length (tiles b)]"
      using e1 by (metis le_add_diff_inverse less_imp_le_nat upt_add_eq_append)
    then show ?thesis using step pb True ih by simp
  next
    case False
    then have "?e = length (tiles b)" using e1 by simp
    moreover have "runWorker ?w0 (replicate n TimerFires) = (Some ?w0, [])"
      by (rule run_idle) simp
    ultimately show ?thesis using step pb by simp
  qed
qed

text \<open>
  A render request with a positive tile size and batch size, followed by enough timer
  events and no other message: every tile of the sorted list is answered once, in list
  order.  Callbacks of other requests that are still pending post nothing.
\<close>

lemma run_uncancelled:
  assumes ts: "0 < tileSize (quality req)" and tpf: "0 < tilesPerFrame (quality req)"
    and old: "\<forall>b \<in> set (timers w). requestId (request b) \<noteq> requestId req"
    and n: "length (timers w) + totalTiles (initialBatch req) \<le> n"
  shows "runWorker w (Message (Render req) # replicate n TimerFires)
       = (Some \<lparr>currentRequestId = requestId req, timers = []\<rparr>,
          map (responseAt (initialBatch req)) [0..<totalTiles (initialBatch req)])"
proof -
  let ?b = "initialBatch req"
  let ?w' = "w\<lparr>currentRequestId := requestId req\<rparr>"
  let ?e = "batchEndOf ?b"
  let ?b1 = "?b\<lparr>tilesComputed := ?e, tileIndex := ?e\<rparr>"
  have len: "length (tiles ?b) = totalTiles ?b"
    by (simp add: initialBatch_def Let_def length_sortTiles)
  have b0: "request ?b = req" "tileIndex ?b = 0" "tilesComputed ?b = 0"
    by (simp_all add: initialBatch_def Let_def)
  have step: "workerStep w (Message (Render req)) = Some (processBatch ?w' ?b)"
    using ts by (simp add: workerStep_def worker_onmessage_def handleRenderRequest_def
        initialBatch_def Let_def)
  have pb: "processBatch ?w' ?b =
     ((if ?e < length (tiles ?b) then ?w'\<lparr>timers := timers ?w' @ [?b1]\<rparr> else ?w'),
      map (responseAt ?b) [tileIndex ?b..<?e])"
    by (rule processBatch_active) (simp_all add: b0)
  have e: "?e \<le> totalTiles ?b" using len by (simp add: batchEndOf_def)
  have split: "replicate n TimerFires
      = replicate (length (timers w)) TimerFires @ replicate (n - length (timers w)) TimerFires"
    using n by (metis add_leE le_add_diff_inverse replicate_add)
  show ?thesis
  proof (cases "?e < length (tiles ?b)")
    case True
    let ?w1 = "?w'\<lparr>timers := timers ?w' @ [?b1]\<rparr>"
    have skip: "runWorker ?w1 (replicate (length (timers w)) TimerFires)
        = (Some (?w1\<lparr>timers := [?b1]\<rparr>), [])"
      using old by (intro run_skip_stale) auto
    have c: "responseAt ?b1 = responseAt ?b" by (rule responseAt_cong) simp_all
    have "runWorker (?w1\<lparr>timers := [?b1]\<rparr>) (replicate (n - length (timers w)) TimerFires)
        = (Some (?w1\<lparr>timers := [?b1]\<rparr>\<lparr>timers := []\<rparr>),
           map (responseAt ?b1) [tileIndex ?b1..<length (tiles ?b1)])"
      using tpf True n len by (intro run_ticks) (auto simp: b0)
    then have ticks: "runWorker (?w1\<lparr>timers := [?b1]\<rparr>) (replicate (n - length (timers w)) TimerFires)
        = (Some \<lparr>currentRequestId = requestId req, timers = []\<rparr>,
           map (responseAt ?b) [?e..<totalTiles ?b])"
      using c len by simp
    have "[0..<totalTiles ?b] = [0..<?e] @ [?e..<totalTiles ?b]"
      using e by (metis le_add_diff_inverse upt_add_eq_append zero_le)
    then show ?thesis
      using step pb True skip ticks
      by (subst split) (simp add: runWorker_append b0)
  next
    case False
    then have eq: "?e = totalTiles ?b" using e len by simp
    have skip: "runWorker ?w' (replicate (length (timers w)) TimerFires)
        = (Some (?w'\<lparr>timers := []\<rparr>), [])"
      using old by (intro run_skip_stale) auto
    have idle: "runWorker (?w'\<lparr>timers := []\<rparr>) (replicate (n - length (timers w)) TimerFires)
        = (Some (?w'\<lparr>timers := []\<rparr>), [])"
      by (rule run_idle) simp
    show ?thesis
      using step pb False skip idle eq
      by (subst split) (simp add: runWorker_append b0)
  qed
qed

lemma responseAt_simps:
  "resp_requestId (responseAt b j) = requestId (request b)"
  "isComplete (responseAt b j) = (j + 1 = totalTiles b)"
  "resp_iterationData (responseAt b j) = None"
  "tile_x (tile (responseAt b j)) = fst (tiles b ! j) * tileSize (quality (request b))"
  "tile_y (tile (responseAt b j)) = snd (tiles b ! j) * tileSize (quality (request b))"
  by (simp_all add: responseAt_def tileRect_eq computeTile_def Let_def)

lemma initialBatch_simps:
  "request (initialBatch req) = req"
  "tiles (initialBatch req) = sortTiles (tileCount (canvasWidth req) (tileSize (quality req)))
       (tileCount (canvasHeight req) (tileSize (quality req)))"
  "totalTiles (initialBatch req) = tileCount (canvasWidth req) (tileSize (quality req)) *
       tileCount (canvasHeight req) (tileSize (quality req))"
  "tileIndex (initialBatch req) = 0" "tilesComputed (initialBatch req) = 0"
  by (simp_all add: initialBatch_def Let_def)

lemma stuck_ticks:
  assumes "tilesPerFrame (quality (request b)) = 0" "tileIndex b < length (tiles b)"
    "tilesComputed b = tileIndex b" "currentRequestId w = requestId (request b)" "timers w = [b]"
  shows "workerStep w TimerFires = Some (w, [])"
proof -
  have e: "batchEndOf b = tileIndex b" using assms by (simp add: batchEndOf_def)
  have "processBatch (w\<lparr>timers := []\<rparr>) b = (w\<lparr>timers := []\<rparr>\<lparr>timers := timers (w\<lparr>timers := []\<rparr>) @ [b\<lparr>tilesComputed := batchEndOf b, tileIndex := batchEndOf b\<rparr>]\<rparr>, map (responseAt b) [tileIndex b ..<batchEndOf b])"
    using assms by (subst processBatch_active) (simp_all add: e)
  then show ?thesis using assms e by (simp add: workerStep_def)
qed

lemma batchLoop_ids:
  "batchLoop w b i e = (b', out, ret) \<Longrightarrow>
     request b' = request b
   \<and> (\<forall>r \<in> set out. resp_requestId r = requestId (request b) \<and> resp_iterationData r = None)"
proof (induction w b i e arbitrary: b' out ret rule: batchLoop.induct)
  case (1 w b i batchEnd)
  show ?case
  proof (cases "i < batchEnd \<and> currentRequestId w = requestId (request b)")
    case False
    then show ?thesis using 1(2) by (subst (asm) batchLoop.simps) (auto split: if_splits)
  next
    case True
    obtain tileX tileY tileWidth tileHeight where r:
      "tileRect (tileSize (quality (request b))) (canvasWidth (request b))
         (canvasHeight (request b)) (tiles b ! i) = (tileX, tileY, tileWidth, tileHeight)"
      by (metis prod_cases4)
    let ?b' = "b\<lparr>tilesComputed := tilesComputed b + 1\<rparr>"
    obtain b2 out2 ret2 where rec: "batchLoop w ?b' (i + 1) batchEnd = (b2, out2, ret2)"
      by (metis prod_cases3)
    have ih: "request b2 = request ?b'
        \<and> (\<forall>r \<in> set out2. resp_requestId r = requestId (request ?b') \<and> resp_iterationData r = None)"
      using 1(1)[OF _ _ refl refl r[symmetric] refl refl refl refl refl rec] True by simp
    show ?thesis
      using 1(2) True r rec ih
      by (subst (asm) batchLoop.simps) (auto simp: Let_def)
  qed
qed

lemma processBatch_ids:
  assumes "processBatch w b = (w', out)"
  shows "currentRequestId w' = currentRequestId w
       \<and> (\<forall>r \<in> set out. resp_requestId r = currentRequestId w \<and> resp_iterationData r = None)"
proof (cases "currentRequestId w = requestId (request b)")
  case False
  then show ?thesis using assms by (simp add: processBatch_def)
next
  case True
  obtain b2 out2 ret2 where l: "batchLoop w b (tileIndex b)
      (min (tileIndex b + tilesPerFrame (quality (request b))) (length (tiles b))) = (b2, out2, ret2)"
    by (metis prod_cases3)
  from batchLoop_ids[OF l] show ?thesis
    using assms True l by (auto simp: processBatch_def Let_def split: if_splits)
qed

text \<open>No response of the worker carries the optional \<open>iterationData\<close> field.\<close>

lemma workerStep_no_iterationData:
  assumes "workerStep w ev = Some (w', out)"
  shows "\<forall>r \<in> set out. resp_iterationData r = None"
proof (cases ev)
  case TimerFires
  show ?thesis
  proof (cases "timers w")
    case Nil
    then show ?thesis using assms TimerFires by (simp add: workerStep_def)
  next
    case (Cons b bs)
    then have "processBatch (w\<lparr>timers := bs\<rparr>) b = (w', out)"
      using assms TimerFires by (simp add: workerStep_def)
    from processBatch_ids[OF this] show ?thesis by simp
  qed
next
  case (Message msg)
  show ?thesis
  proof (cases msg)
    case (Cancel c)
    then show ?thesis using assms Message
      by (auto simp: workerStep_def worker_onmessage_def)
  next
    case (Render req)
    from assms Message Render obtain b where
      "processBatch (w\<lparr>currentRequestId := requestId req\<rparr>) b = (w', out)"
      by (auto simp: workerStep_def worker_onmessage_def handleRenderRequest_def Let_def
          split: if_splits)
    from processBatch_ids[OF this] show ?thesis by simp
  qed
qed

lemma runWorker_no_iterationData:
  "\<forall>r \<in> set (snd (runWorker w evs)). resp_iterationData r = None"
proof (induction evs arbitrary: w)
  case Nil
  then show ?case by simp
next
  case (Cons ev evs)
  show ?case
  proof (cases "workerStep w ev")
    case None
    then show ?thesis by simp
  next
    case (Some p)
    obtain w' out where p: "p = (w', out)" by (cases p)
    have "\<forall>r \<in> set out. resp_iterationData r = None"
      using Some p by (intro workerStep_no_iterationData[of w ev w']) simp
    moreover have "\<forall>r \<in> set (snd (runWorker w' evs)). resp_iterationData r = None"
      by (rule Cons.IH)
    ultimately show ?thesis using Some p by (auto split: prod.splits)
  qed
qed

lemma workerStep_fence:
  assumes "workerStep w ev = Some (w', out)" "currentRequestId w \<noteq> R"
    and "\<forall>req. ev = Message (Render req) \<longrightarrow> requestId req \<noteq> R" and "R \<noteq> - 1"
  shows "currentRequestId w' \<noteq> R \<and> (\<forall>r \<in> set out. resp_requestId r \<noteq> R)"
proof (cases ev)
  case TimerFires
  show ?thesis
  proof (cases "timers w")
    case Nil
    then show ?thesis using assms TimerFires by (simp add: workerStep_def)
  next
    case (Cons b bs)
    then have "processBatch (w\<lparr>timers := bs\<rparr>) b = (w', out)"
      using assms(1) TimerFires by (simp add: workerStep_def)
    from processBatch_ids[OF this] show ?thesis using assms(2) by simp
  qed
next
  case (Message msg)
  show ?thesis
  proof (cases msg)
    case (Cancel c)
    then show ?thesis using assms Message
      by (auto simp: workerStep_def worker_onmessage_def)
  next
    case (Render req)
    then have id: "requestId req \<noteq> R" using assms(3) Message by simp
    from assms(1) Message Render obtain b where
      "processBatch (w\<lparr>currentRequestId := requestId req\<rparr>) b = (w', out)"
      by (auto simp: workerStep_def worker_onmessage_def handleRenderRequest_def Let_def
          split: if_splits)
    from processBatch_ids[OF this] show ?thesis using id by simp
  qed
qed

lemma runWorker_fence:
  assumes "currentRequestId w \<noteq> R"
    and "\<forall>req. Message (Render req) \<in> set evs \<longrightarrow> requestId req \<noteq> R" and "R \<noteq> - 1"
  shows "\<forall>r \<in> set (snd (runWorker w evs)). resp_requestId r \<noteq> R"
  using assms
proof (induction evs arbitrary: w)
  case Nil
  then show ?case by simp
next
  case (Cons ev evs)
  show ?case
  proof (cases "workerStep w ev")
    case None
    then show ?thesis by simp
  next
    case (Some p)
    obtain w' out where p: "p = (w', out)" by (cases p)
    have f: "currentRequestId w' \<noteq> R \<and> (\<forall>r \<in> set out. resp_requestId r \<noteq> R)"
      using Some p Cons.prems by (intro workerStep_fence[of w ev]) auto
    then have "\<forall>r \<in> set (snd (runWorker w' evs)). resp_requestId r \<noteq> R"
      using Cons.prems by (intro Cons.IH) auto
    then show ?thesis using Some p f by (auto split: prod.splits)
  qed
qed


lemma workerStep_render:
  "0 < tileSize (quality req) \<Longrightarrow>
     workerStep w (Message (Render req))
       = Some (processBatch (w\<lparr>currentRequestId := requestId req\<rparr>) (initialBatch req))"
  by (simp add: workerStep_def worker_onmessage_def handleRenderRequest_def initialBatch_def
      Let_def)

lemma exampleRequest_simps:
  "canvasWidth (exampleRequest cw ch ts tpf rid) = cw"
  "canvasHeight (exampleRequest cw ch ts tpf rid) = ch"
  "tileSize (quality (exampleRequest cw ch ts tpf rid)) = ts"
  "tilesPerFrame (quality (exampleRequest cw ch ts tpf rid)) = tpf"
  "requestId (exampleRequest cw ch ts tpf rid) = rid"
  by (simp_all add: exampleRequest_def)

lemma responseAt_update:
  "responseAt (b\<lparr>tilesComputed := a, tileIndex := c\<rparr>) = responseAt b"
  by (rule responseAt_cong) simp_all

lemma responseAt_tile:
  "tileArea (tile (responseAt b j))
     = tileRect (tileSize (quality (request b))) (canvasWidth (request b))
         (canvasHeight (request b)) (tiles b ! j)"
  "length (imageData (tile (responseAt b j)))
     = tile_width (tile (responseAt b j)) * tile_height (tile (responseAt b j))"
  by (simp_all add: responseAt_def tileArea_def tileRect_eq computeTile_def Let_def
      length_concat comp_def sum_list_triv)

text \<open>
  The tiles posted by an uncancelled run: the rectangles of the sorted list, each computed
  by the batch loop and filled with one pixel per position.
\<close>

lemma run_uncancelled_tiles:
  assumes "0 < tileSize (quality req)" and "0 < tilesPerFrame (quality req)"
    and "\<forall>b \<in> set (timers w). requestId (request b) \<noteq> requestId req"
    and "length (timers w) + totalTiles (initialBatch req) \<le> n"
  shows "map (\<lambda>r. tileArea (tile r))
           (snd (runWorker w (Message (Render req) # replicate n TimerFires)))
       = map (tileRect (tileSize (quality req)) (canvasWidth req) (canvasHeight req))
           (tiles (initialBatch req))"
    and "\<forall>r \<in> set (snd (runWorker w (Message (Render req) # replicate n TimerFires))).
           length (imageData (tile r)) = tile_width (tile r) * tile_height (tile r)"
proof -
  let ?b = "initialBatch req"
  let ?f = "tileRect (tileSize (quality req)) (canvasWidth req) (canvasHeight req)"
  have len: "length (tiles ?b) = totalTiles ?b"
    by (simp add: initialBatch_simps length_sortTiles)
  have "map (\<lambda>r. tileArea (tile r))
           (snd (runWorker w (Message (Render req) # replicate n TimerFires)))
      = map (\<lambda>j. ?f (tiles ?b ! j)) [0..<length (tiles ?b)]"
    unfolding run_uncancelled[OF assms] len
    by (simp add: responseAt_tile initialBatch_simps(1))
  also have "\<dots> = map ?f (map (\<lambda>j. tiles ?b ! j) [0..<length (tiles ?b)])"
    by (simp add: comp_def)
  also have "map (\<lambda>j. tiles ?b ! j) [0..<length (tiles ?b)] = tiles ?b" by (rule map_nth)
  finally show "map (\<lambda>r. tileArea (tile r))
           (snd (runWorker w (Message (Render req) # replicate n TimerFires)))
       = map ?f (tiles ?b)" .
  show "\<forall>r \<in> set (snd (runWorker w (Message (Render req) # replicate n TimerFires))).
           length (imageData (tile r)) = tile_width (tile r) * tile_height (tile r)"
    unfolding run_uncancelled[OF assms] by (auto simp: responseAt_tile)
qed

text \<open>
  C5.  For positive \<open>canvasWidth\<close>, \<open>canvasHeight\<close> and \<open>tileSize\<close> the tiles of a render
  request partition the canvas.  \<open>handleRenderRequest\<close> hands the list \<open>grid\<close> below to
  \<open>processBatch\<close>: there are \<open>ceil(canvasWidth / tileSize) * ceil(canvasHeight / tileSize)\<close>
  tiles; the tile with grid coordinates \<open>(tx, ty)\<close> is at \<open>(tx * tileSize, ty * tileSize)\<close>
  with width \<open>min(tileSize, canvasWidth - x)\<close> and height \<open>min(tileSize, canvasHeight - y)\<close>;
  no tile is empty and none extends past the canvas; and every canvas pixel lies in
  exactly one tile of the list.  The tiles that the scheduler computes and posts are these:
  in a run of the request that no message interrupts (a positive batch size, no pending
  callback with the same id, enough timer events) the posted tiles are, in order, the
  rectangles of \<open>grid\<close>, each holding \<open>width * height\<close> pixels, clipped to the canvas,
  not empty, and every canvas pixel lies in exactly one posted tile.
\<close>

theorem tile_grid_partition:
  assumes "0 < cw" "0 < ch" "0 < ts"
  shows "let tilesX = tileCount cw ts; tilesY = tileCount ch ts; grid = sortTiles tilesX tilesY in
      (\<forall>w req. canvasWidth req = cw \<and> canvasHeight req = ch \<and> tileSize (quality req) = ts \<longrightarrow>
         handleRenderRequest w req =
           Some (processBatch (w\<lparr>currentRequestId := requestId req\<rparr>)
                   \<lparr>request = req, tiles = grid, tileIndex = 0, tilesComputed = 0,
                    totalTiles = tilesX * tilesY\<rparr>))
    \<and> tilesX = nat \<lceil>real cw / real ts\<rceil> \<and> tilesY = nat \<lceil>real ch / real ts\<rceil>
    \<and> length grid = tilesX * tilesY
    \<and> (\<forall>t \<in> set grid. \<exists>x y w h. tileRect ts cw ch t = (x, y, w, h)
          \<and> x = fst t * ts \<and> y = snd t * ts
          \<and> w = min ts (cw - x) \<and> h = min ts (ch - y)
          \<and> 0 < w \<and> 0 < h \<and> x + w \<le> cw \<and> y + h \<le> ch)
    \<and> (\<forall>px < cw. \<forall>py < ch.
          \<exists>!i. i < length grid \<and> pixelInTile px py (tileRect ts cw ch (grid ! i)))
    \<and> (\<forall>w req n. canvasWidth req = cw \<and> canvasHeight req = ch \<and> tileSize (quality req) = ts
            \<and> 0 < tilesPerFrame (quality req)
            \<and> (\<forall>b \<in> set (timers w). requestId (request b) \<noteq> requestId req)
            \<and> length (timers w) + tilesX * tilesY \<le> n \<longrightarrow>
          (let emitted = map tile (snd (runWorker w (Message (Render req) # replicate n TimerFires)))
           in length emitted = tilesX * tilesY
            \<and> map tileArea emitted = map (tileRect ts cw ch) grid
            \<and> (\<forall>t \<in> set emitted.
                  length (imageData t) = tile_width t * tile_height t
                \<and> (\<exists>tx ty. tile_x t = tx * ts \<and> tile_y t = ty * ts)
                \<and> tile_width t = min ts (cw - tile_x t)
                \<and> tile_height t = min ts (ch - tile_y t)
                \<and> 0 < tile_width t \<and> 0 < tile_height t
                \<and> tile_x t + tile_width t \<le> cw \<and> tile_y t + tile_height t \<le> ch)
            \<and> (\<forall>px < cw. \<forall>py < ch.
                  \<exists>!i. i < length emitted \<and> pixelInTile px py (tileArea (emitted ! i)))))"
proof -
  define tilesX where "tilesX = tileCount cw ts"
  define tilesY where "tilesY = tileCount ch ts"
  define grid where "grid = sortTiles tilesX tilesY"
  have link: "\<forall>w req. canvasWidth req = cw \<and> canvasHeight req = ch \<and> tileSize (quality req) = ts \<longrightarrow>
         handleRenderRequest w req =
           Some (processBatch (w\<lparr>currentRequestId := requestId req\<rparr>)
                   \<lparr>request = req, tiles = grid, tileIndex = 0, tilesComputed = 0,
                    totalTiles = tilesX * tilesY\<rparr>)"
    using assms(3) by (simp add: handleRenderRequest_def Let_def grid_def tilesX_def tilesY_def)
  have rects: "\<forall>t \<in> set grid. \<exists>x y w h. tileRect ts cw ch t = (x, y, w, h)
          \<and> x = fst t * ts \<and> y = snd t * ts
          \<and> w = min ts (cw - x) \<and> h = min ts (ch - y)
          \<and> 0 < w \<and> 0 < h \<and> x + w \<le> cw \<and> y + h \<le> ch"
    unfolding grid_def tilesX_def tilesY_def using grid_rects[OF assms(3)] by blast
  have cover: "\<forall>px < cw. \<forall>py < ch.
      \<exists>!i. i < length grid \<and> pixelInTile px py (tileRect ts cw ch (grid ! i))"
    unfolding grid_def tilesX_def tilesY_def using grid_cover[OF assms(3)] by blast
  have cnt: "tilesX = nat \<lceil>real cw / real ts\<rceil>" "tilesY = nat \<lceil>real ch / real ts\<rceil>"
    "length grid = tilesX * tilesY"
    by (simp_all add: tilesX_def tilesY_def tileCount_def grid_def length_sortTiles)
  have run: "let emitted = map tile (snd (runWorker w (Message (Render req) # replicate n TimerFires)))
           in length emitted = tilesX * tilesY
            \<and> map tileArea emitted = map (tileRect ts cw ch) grid
            \<and> (\<forall>t \<in> set emitted.
                  length (imageData t) = tile_width t * tile_height t
                \<and> (\<exists>tx ty. tile_x t = tx * ts \<and> tile_y t = ty * ts)
                \<and> tile_width t = min ts (cw - tile_x t)
                \<and> tile_height t = min ts (ch - tile_y t)
                \<and> 0 < tile_width t \<and> 0 < tile_height t
                \<and> tile_x t + tile_width t \<le> cw \<and> tile_y t + tile_height t \<le> ch)
            \<and> (\<forall>px < cw. \<forall>py < ch.
                  \<exists>!i. i < length emitted \<and> pixelInTile px py (tileArea (emitted ! i)))"
    if h: "canvasWidth req = cw \<and> canvasHeight req = ch \<and> tileSize (quality req) = ts
            \<and> 0 < tilesPerFrame (quality req)
            \<and> (\<forall>b \<in> set (timers w). requestId (request b) \<noteq> requestId req)
            \<and> length (timers w) + tilesX * tilesY \<le> n" for w req n
  proof -
    define emitted where
      "emitted = map tile (snd (runWorker w (Message (Render req) # replicate n TimerFires)))"
    have g: "tiles (initialBatch req) = grid"
      using h by (simp add: initialBatch_simps grid_def tilesX_def tilesY_def)
    have a: "0 < tileSize (quality req)" "0 < tilesPerFrame (quality req)"
      "\<forall>b \<in> set (timers w). requestId (request b) \<noteq> requestId req"
      "length (timers w) + totalTiles (initialBatch req) \<le> n"
      using h assms(3) by (simp_all add: initialBatch_simps tilesX_def tilesY_def)
    have areas: "map tileArea emitted = map (tileRect ts cw ch) grid"
      using run_uncancelled_tiles(1)[OF a] h g by (simp add: emitted_def comp_def)
    have px: "\<forall>t \<in> set emitted. length (imageData t) = tile_width t * tile_height t"
      using run_uncancelled_tiles(2)[OF a] by (auto simp: emitted_def)
    have len: "length emitted = length grid"
      using areas by (metis length_map)
    have nth: "tileArea (emitted ! i) = tileRect ts cw ch (grid ! i)" if "i < length grid" for i
      using that areas len by (metis nth_map)
    have each: "length (imageData t) = tile_width t * tile_height t
                \<and> (\<exists>tx ty. tile_x t = tx * ts \<and> tile_y t = ty * ts)
                \<and> tile_width t = min ts (cw - tile_x t)
                \<and> tile_height t = min ts (ch - tile_y t)
                \<and> 0 < tile_width t \<and> 0 < tile_height t
                \<and> tile_x t + tile_width t \<le> cw \<and> tile_y t + tile_height t \<le> ch"
      if "t \<in> set emitted" for t
    proof -
      from that obtain i where i: "i < length grid" "t = emitted ! i"
        using len by (metis in_set_conv_nth)
      have m: "grid ! i \<in> set grid" using i(1) by simp
      from rects m obtain x y w h where r: "tileRect ts cw ch (grid ! i) = (x, y, w, h)"
          "x = fst (grid ! i) * ts" "y = snd (grid ! i) * ts"
          "w = min ts (cw - x)" "h = min ts (ch - y)"
          "0 < w" "0 < h" "x + w \<le> cw" "y + h \<le> ch"
        by blast
      have "tileArea t = (x, y, w, h)" using nth[OF i(1)] i(2) r(1) by simp
      then have f: "tile_x t = x" "tile_y t = y" "tile_width t = w" "tile_height t = h"
        by (simp_all add: tileArea_def)
      have l: "length (imageData t) = w * h" using px that f by simp
      show ?thesis unfolding f using l r(2-) by blast
    qed
    have cov: "\<exists>!i. i < length emitted \<and> pixelInTile px py (tileArea (emitted ! i))"
      if "px < cw" "py < ch" for px py
    proof -
      from cover that have
        "\<exists>!i. i < length grid \<and> pixelInTile px py (tileRect ts cw ch (grid ! i))" by blast
      moreover have "(i < length emitted \<and> pixelInTile px py (tileArea (emitted ! i)))
          \<longleftrightarrow> (i < length grid \<and> pixelInTile px py (tileRect ts cw ch (grid ! i)))" for i
        using nth[of i] len by auto
      ultimately show ?thesis by simp
    qed
    have c1: "length emitted = tilesX * tilesY" using len cnt(3) by simp
    have c3: "\<forall>t \<in> set emitted.
                  length (imageData t) = tile_width t * tile_height t
                \<and> (\<exists>tx ty. tile_x t = tx * ts \<and> tile_y t = ty * ts)
                \<and> tile_width t = min ts (cw - tile_x t)
                \<and> tile_height t = min ts (ch - tile_y t)
                \<and> 0 < tile_width t \<and> 0 < tile_height t
                \<and> tile_x t + tile_width t \<le> cw \<and> tile_y t + tile_height t \<le> ch"
      by (intro ballI each)
    have c4: "\<forall>px < cw. \<forall>py < ch.
                  \<exists>!i. i < length emitted \<and> pixelInTile px py (tileArea (emitted ! i))"
      by (intro allI impI cov)
    show ?thesis
      unfolding Let_def emitted_def[symmetric]
      by (intro conjI c1 areas c3 c4)
  qed
  show ?thesis
    unfolding Let_def tilesX_def[symmetric] tilesY_def[symmetric] grid_def[symmetric]
    using link cnt rects cover run[unfolded Let_def] by blast
qed

theorem tile_grid_partition_witness:
  "(0::nat) < 5 \<and> (0::nat) < 3 \<and> (0::nat) < 2 \<and>
   (let tilesX = tileCount 5 2; tilesY = tileCount 3 2; grid = sortTiles tilesX tilesY in
      (\<forall>w req. canvasWidth req = 5 \<and> canvasHeight req = 3 \<and> tileSize (quality req) = 2 \<longrightarrow>
         handleRenderRequest w req =
           Some (processBatch (w\<lparr>currentRequestId := requestId req\<rparr>)
                   \<lparr>request = req, tiles = grid, tileIndex = 0, tilesComputed = 0,
                    totalTiles = tilesX * tilesY\<rparr>))
    \<and> tilesX = nat \<lceil>real 5 / real 2\<rceil> \<and> tilesY = nat \<lceil>real 3 / real 2\<rceil>
    \<and> length grid = tilesX * tilesY
    \<and> (\<forall>t \<in> set grid. \<exists>x y w h. tileRect 2 5 3 t = (x, y, w, h)
          \<and> x = fst t * 2 \<and> y = snd t * 2
          \<and> w = min 2 (5 - x) \<and> h = min 2 (3 - y)
          \<and> 0 < w \<and> 0 < h \<and> x + w \<le> 5 \<and> y + h \<le> 3)
    \<and> (\<forall>px < 5. \<forall>py < 3.
          \<exists>!i. i < length grid \<and> pixelInTile px py (tileRect 2 5 3 (grid ! i)))
    \<and> (\<forall>w req n. canvasWidth req = 5 \<and> canvasHeight req = 3 \<and> tileSize (quality req) = 2
            \<and> 0 < tilesPerFrame (quality req)
            \<and> (\<forall>b \<in> set (timers w). requestId (request b) \<noteq> requestId req)
            \<and> length (timers w) + tilesX * tilesY \<le> n \<longrightarrow>
          (let emitted = map tile (snd (runWorker w (Message (Render req) # replicate n TimerFires)))
           in length emitted = tilesX * tilesY
            \<and> map tileArea emitted = map (tileRect 2 5 3) grid
            \<and> (\<forall>t \<in> set emitted.
                  length (imageData t) = tile_width t * tile_height t
                \<and> (\<exists>tx ty. tile_x t = tx * 2 \<and> tile_y t = ty * 2)
                \<and> tile_width t = min 2 (5 - tile_x t)
                \<and> tile_height t = min 2 (3 - tile_y t)
                \<and> 0 < tile_width t \<and> 0 < tile_height t
                \<and> tile_x t + tile_width t \<le> 5 \<and> tile_y t + tile_height t \<le> 3)
            \<and> (\<forall>px < 5. \<forall>py < 3.
                  \<exists>!i. i < length emitted \<and> pixelInTile px py (tileArea (emitted ! i))))))
   \<and> map tileArea
        (map tile (snd (runWorker initialWorker
                          (Message (Render (exampleRequest 5 3 2 4 1)) # replicate 6 TimerFires))))
     = [(2, 2, 2, 1), (2, 0, 2, 2), (0, 2, 2, 1), (4, 2, 1, 1), (0, 0, 2, 2), (4, 0, 1, 2)]"
proof -
  have h: "(0::nat) < 5" "(0::nat) < 3" "(0::nat) < 2" by simp_all
  have tc: "tileCount 5 2 = 3" "tileCount 3 2 = 2" by (simp_all add: tileCount_def)
  have g: "sortTiles 3 2 = [(1, 1), (1, 0), (0, 1), (2, 1), (0, 0), (2, 0)]"
    by (simp add: sortTiles_def generateTiles_def tileDistance_def upt_conv_Cons)
  have e: "canvasWidth (exampleRequest 5 3 2 4 1) = 5 \<and> canvasHeight (exampleRequest 5 3 2 4 1) = 3
        \<and> tileSize (quality (exampleRequest 5 3 2 4 1)) = 2
        \<and> 0 < tilesPerFrame (quality (exampleRequest 5 3 2 4 1))
        \<and> (\<forall>b \<in> set (timers initialWorker). requestId (request b) \<noteq> requestId (exampleRequest 5 3 2 4 1))
        \<and> length (timers initialWorker) + tileCount 5 2 * tileCount 3 2 \<le> 6"
    by (simp add: exampleRequest_simps initialWorker_def tc)
  have "map tileArea
        (map tile (snd (runWorker initialWorker
                          (Message (Render (exampleRequest 5 3 2 4 1)) # replicate 6 TimerFires))))
     = map (tileRect 2 5 3) (sortTiles (tileCount 5 2) (tileCount 3 2))"
    using tile_grid_partition[OF h] e unfolding Let_def by blast
  also have "\<dots> = [(2, 2, 2, 1), (2, 0, 2, 2), (0, 2, 2, 1), (4, 2, 1, 1), (0, 0, 2, 2), (4, 0, 1, 2)]"
    by (simp add: tc g tileRect_eq)
  finally show ?thesis using h tile_grid_partition[OF h] by blast
qed

text \<open>
  C6, as stated, fails.  A request whose \<open>tilesPerFrame\<close> is 0 has one tile here, but its
  first batch is empty and reschedules itself, and every later timer event leaves the
  worker as it was and posts nothing: no response is ever emitted.  With \<open>tileSize = 0\<close>
  the handler does not return at all.  And when a batch callback of an earlier request
  with the same id 5 is still pending, it resumes with the new request: a request of one
  tile is answered by three responses with its id.
\<close>

theorem render_emits_each_tile_once_counterexample:
  "totalTiles (initialBatch (exampleRequest 2 2 2 0 1)) = 1
   \<and> workerStep initialWorker (Message (Render (exampleRequest 2 2 2 0 1)))
       = Some (\<lparr>currentRequestId = 1, timers = [initialBatch (exampleRequest 2 2 2 0 1)]\<rparr>, [])
   \<and> workerStep \<lparr>currentRequestId = 1, timers = [initialBatch (exampleRequest 2 2 2 0 1)]\<rparr> TimerFires
       = Some (\<lparr>currentRequestId = 1, timers = [initialBatch (exampleRequest 2 2 2 0 1)]\<rparr>, [])
   \<and> workerStep initialWorker (Message (Render (exampleRequest 2 2 0 4 1))) = None
   \<and> totalTiles (initialBatch (exampleRequest 2 2 2 2 5)) = 1
   \<and> runWorker \<lparr>currentRequestId = - 1,
                 timers = [(initialBatch (exampleRequest 8 2 2 2 5))
                             \<lparr>tilesComputed := 2, tileIndex := 2\<rparr>]\<rparr>
        [Message (Render (exampleRequest 2 2 2 2 5)), TimerFires]
     = (Some \<lparr>currentRequestId = 5, timers = []\<rparr>,
        responseAt (initialBatch (exampleRequest 2 2 2 2 5)) 0
          # map (responseAt (initialBatch (exampleRequest 8 2 2 2 5))) [2, 3])
   \<and> map resp_requestId
        (responseAt (initialBatch (exampleRequest 2 2 2 2 5)) 0
          # map (responseAt (initialBatch (exampleRequest 8 2 2 2 5))) [2, 3]) = [5, 5, 5]"
proof -
  let ?req = "exampleRequest 2 2 2 0 1"
  let ?b = "initialBatch ?req"
  let ?old = "(initialBatch (exampleRequest 8 2 2 2 5))\<lparr>tilesComputed := 2, tileIndex := 2\<rparr>"
  let ?r5 = "exampleRequest 2 2 2 2 5"
  have tc: "tileCount 2 2 = 1" "tileCount 8 2 = 4" by (simp_all add: tileCount_def)
  have t: "totalTiles ?b = 1" "length (tiles ?b) = 1" "tileIndex ?b = 0" "tilesComputed ?b = 0"
       "request ?b = ?req"
    by (simp_all add: initialBatch_simps exampleRequest_def tc length_sortTiles)
  have q: "tilesPerFrame (quality ?req) = 0" "requestId ?req = 1" "tileSize (quality ?req) = 2"
    by (simp_all add: exampleRequest_def)
  have e: "batchEndOf ?b = 0" by (simp add: batchEndOf_def t q)
  have "handleRenderRequest initialWorker ?req
      = Some (processBatch (initialWorker\<lparr>currentRequestId := requestId ?req\<rparr>) ?b)"
    by (simp add: handleRenderRequest_def initialBatch_def Let_def q)
  also have "processBatch (initialWorker\<lparr>currentRequestId := requestId ?req\<rparr>) ?b
      = (\<lparr>currentRequestId = 1, timers = [?b]\<rparr>, [])"
    by (subst processBatch_active) (simp_all add: t q e initialWorker_def)
  finally have 1: "workerStep initialWorker (Message (Render ?req))
       = Some (\<lparr>currentRequestId = 1, timers = [?b]\<rparr>, [])"
    by (simp add: workerStep_def worker_onmessage_def)
  have 2: "workerStep \<lparr>currentRequestId = 1, timers = [?b]\<rparr> TimerFires
       = Some (\<lparr>currentRequestId = 1, timers = [?b]\<rparr>, [])"
    by (rule stuck_ticks) (simp_all add: t q)
  have 3: "workerStep initialWorker (Message (Render (exampleRequest 2 2 0 4 1))) = None"
    by (simp add: workerStep_def worker_onmessage_def handleRenderRequest_def exampleRequest_def)
  have u: "[2..<4] = [2, 3]" "[0..<1] = [0::nat]" by (simp_all add: upt_conv_Cons)
  have s5: "workerStep \<lparr>currentRequestId = - 1, timers = [?old]\<rparr> (Message (Render ?r5))
      = Some (\<lparr>currentRequestId = 5, timers = [?old]\<rparr>, [responseAt (initialBatch ?r5) 0])"
    by (simp add: workerStep_render exampleRequest_simps processBatch_active batchEndOf_def
        initialBatch_simps tc length_sortTiles u)
  have s6: "workerStep \<lparr>currentRequestId = 5, timers = [?old]\<rparr> TimerFires
      = Some (\<lparr>currentRequestId = 5, timers = []\<rparr>,
              map (responseAt (initialBatch (exampleRequest 8 2 2 2 5))) [2, 3])"
    by (simp add: workerStep_def exampleRequest_simps processBatch_active batchEndOf_def
        initialBatch_simps tc length_sortTiles responseAt_update u)
  have 4: "totalTiles (initialBatch ?r5) = 1"
    by (simp add: initialBatch_simps exampleRequest_simps tc)
  have 5: "runWorker \<lparr>currentRequestId = - 1, timers = [?old]\<rparr>
        [Message (Render ?r5), TimerFires]
     = (Some \<lparr>currentRequestId = 5, timers = []\<rparr>,
        responseAt (initialBatch ?r5) 0
          # map (responseAt (initialBatch (exampleRequest 8 2 2 2 5))) [2, 3])"
    by (simp add: s5 s6)
  have 6: "map resp_requestId
        (responseAt (initialBatch ?r5) 0
          # map (responseAt (initialBatch (exampleRequest 8 2 2 2 5))) [2, 3]) = [5, 5, 5]"
    by (simp add: responseAt_simps initialBatch_simps exampleRequest_simps)
  show ?thesis using t(1) 1 2 3 4 5 6 by blast
qed

text \<open>
  C6, amended.  For a render request with \<open>tileSize \<ge> 1\<close> and \<open>tilesPerFrame \<ge> 1\<close> whose id
  differs from the ids of the batch callbacks still pending, processed without any
  further message (the request followed by \<open>n\<close> timer events, \<open>n\<close> at least the number of
  pending callbacks plus the number of tiles): the worker ends with no callback pending
  and has emitted exactly one response per tile, the \<open>i\<close>-th response for the \<open>i\<close>-th tile
  of the sorted list (whose entries are distinct), each with the id of the request, and
  the \<open>i\<close>-th response has \<open>isComplete = true\<close> if and only if \<open>i + 1\<close>, the running count of
  emitted tiles, equals the total tile count: exactly the last one.
\<close>

theorem render_emits_each_tile_once:
  assumes "0 < tileSize (quality req)" and "0 < tilesPerFrame (quality req)"
    and "\<forall>b \<in> set (timers w). requestId (request b) \<noteq> requestId req"
    and "length (timers w) + tileCount (canvasWidth req) (tileSize (quality req)) *
           tileCount (canvasHeight req) (tileSize (quality req)) \<le> n"
  shows "let ts = tileSize (quality req);
             tilesX = tileCount (canvasWidth req) ts;
             tilesY = tileCount (canvasHeight req) ts;
             grid = sortTiles tilesX tilesY;
             (final, out) = runWorker w (Message (Render req) # replicate n TimerFires)
         in final = Some \<lparr>currentRequestId = requestId req, timers = []\<rparr>
          \<and> length out = tilesX * tilesY
          \<and> distinct grid \<and> length grid = tilesX * tilesY
          \<and> (\<forall>i < tilesX * tilesY.
                tile_x (tile (out ! i)) = fst (grid ! i) * ts
              \<and> tile_y (tile (out ! i)) = snd (grid ! i) * ts
              \<and> resp_requestId (out ! i) = requestId req
              \<and> (isComplete (out ! i) \<longleftrightarrow> i + 1 = tilesX * tilesY))"
proof -
  have n: "length (timers w) + totalTiles (initialBatch req) \<le> n"
    using assms(4) by (simp add: initialBatch_simps)
  show ?thesis
    unfolding Let_def run_uncancelled[OF assms(1-3) n]
    by (simp add: initialBatch_simps responseAt_simps length_sortTiles distinct_sortTiles)
qed

theorem render_emits_each_tile_once_witness:
  "0 < tileSize (quality (exampleRequest 4 2 2 3 7))
   \<and> 0 < tilesPerFrame (quality (exampleRequest 4 2 2 3 7))
   \<and> list_all (\<lambda>b. requestId (request b) \<noteq> requestId (exampleRequest 4 2 2 3 7))
        (timers \<lparr>currentRequestId = 6, timers = [initialBatch (exampleRequest 2 2 2 1 6)]\<rparr>)
   \<and> length (timers \<lparr>currentRequestId = 6, timers = [initialBatch (exampleRequest 2 2 2 1 6)]\<rparr>)
        + tileCount (canvasWidth (exampleRequest 4 2 2 3 7)) (tileSize (quality (exampleRequest 4 2 2 3 7)))
          * tileCount (canvasHeight (exampleRequest 4 2 2 3 7)) (tileSize (quality (exampleRequest 4 2 2 3 7)))
        \<le> 3
   \<and> (let ts = tileSize (quality (exampleRequest 4 2 2 3 7));
           tilesX = tileCount (canvasWidth (exampleRequest 4 2 2 3 7)) ts;
           tilesY = tileCount (canvasHeight (exampleRequest 4 2 2 3 7)) ts;
           grid = sortTiles tilesX tilesY;
           (final, out) = runWorker \<lparr>currentRequestId = 6, timers = [initialBatch (exampleRequest 2 2 2 1 6)]\<rparr>
                            (Message (Render (exampleRequest 4 2 2 3 7)) # replicate 3 TimerFires)
       in final = Some \<lparr>currentRequestId = requestId (exampleRequest 4 2 2 3 7), timers = []\<rparr>
        \<and> length out = tilesX * tilesY
        \<and> distinct grid \<and> length grid = tilesX * tilesY
        \<and> (\<forall>i < tilesX * tilesY.
              tile_x (tile (out ! i)) = fst (grid ! i) * ts
            \<and> tile_y (tile (out ! i)) = snd (grid ! i) * ts
            \<and> resp_requestId (out ! i) = requestId (exampleRequest 4 2 2 3 7)
            \<and> (isComplete (out ! i) \<longleftrightarrow> i + 1 = tilesX * tilesY)))"
proof -
  have tc: "tileCount 4 2 = 2" "tileCount 2 2 = 1" by (simp_all add: tileCount_def)
  have h: "0 < tileSize (quality (exampleRequest 4 2 2 3 7))"
    "0 < tilesPerFrame (quality (exampleRequest 4 2 2 3 7))"
    "\<forall>b \<in> set (timers \<lparr>currentRequestId = 6, timers = [initialBatch (exampleRequest 2 2 2 1 6)]\<rparr>).
         requestId (request b) \<noteq> requestId (exampleRequest 4 2 2 3 7)"
    "length (timers \<lparr>currentRequestId = 6, timers = [initialBatch (exampleRequest 2 2 2 1 6)]\<rparr>)
        + tileCount (canvasWidth (exampleRequest 4 2 2 3 7)) (tileSize (quality (exampleRequest 4 2 2 3 7)))
          * tileCount (canvasHeight (exampleRequest 4 2 2 3 7)) (tileSize (quality (exampleRequest 4 2 2 3 7)))
        \<le> 3"
    by (simp_all add: exampleRequest_def initialBatch_simps tc)
  have l: "list_all (\<lambda>b. requestId (request b) \<noteq> requestId (exampleRequest 4 2 2 3 7))
        (timers \<lparr>currentRequestId = 6, timers = [initialBatch (exampleRequest 2 2 2 1 6)]\<rparr>)"
    using h(3) by (simp only: list_all_iff)
  show ?thesis using h(1,2,4) l render_emits_each_tile_once[OF h] by blast
qed

text \<open>The positions of the tiles emitted by an uncancelled run, in order of emission.\<close>

lemma run_uncancelled_positions:
  assumes "0 < tileSize (quality req)" and "0 < tilesPerFrame (quality req)"
    and "\<forall>b \<in> set (timers w). requestId (request b) \<noteq> requestId req"
    and "length (timers w) + totalTiles (initialBatch req) \<le> n"
  shows "map (\<lambda>r. (tile_x (tile r), tile_y (tile r)))
           (snd (runWorker w (Message (Render req) # replicate n TimerFires)))
       = map (\<lambda>t. (fst t * tileSize (quality req), snd t * tileSize (quality req)))
           (tiles (initialBatch req))"
proof -
  let ?b = "initialBatch req"
  have len: "length (tiles ?b) = totalTiles ?b"
    by (simp add: initialBatch_simps length_sortTiles)
  have "map (\<lambda>r. (tile_x (tile r), tile_y (tile r)))
           (snd (runWorker w (Message (Render req) # replicate n TimerFires)))
      = map (\<lambda>j. (fst (tiles ?b ! j) * tileSize (quality req),
                   snd (tiles ?b ! j) * tileSize (quality req))) [0..<length (tiles ?b)]"
    unfolding run_uncancelled[OF assms] len
    by (simp add: responseAt_simps initialBatch_simps(1))
  also have "\<dots> = map (\<lambda>t. (fst t * tileSize (quality req), snd t * tileSize (quality req)))
      (map (\<lambda>j. tiles ?b ! j) [0..<length (tiles ?b)])"
    by (simp add: comp_def)
  also have "map (\<lambda>j. tiles ?b ! j) [0..<length (tiles ?b)] = tiles ?b" by (rule map_nth)
  finally show ?thesis .
qed

text \<open>
  C7.  The list of tiles the scheduler works through, \<open>sortTiles tilesX tilesY\<close>, is in
  ascending order of the Euclidean distance, in grid units, from the centre tile
  \<open>(floor(tilesX / 2), floor(tilesY / 2))\<close>; the tiles at any one distance \<open>k\<close> keep their
  row-major generation order; the sort loses and adds no tile; and for a 3 by 3 grid the
  centre tile \<open>(1, 1)\<close>, the only tile at distance 0, comes first.  The tiles are emitted
  in the order of this list: in a run of a request with positive tile and batch size that
  no message interrupts, the positions of the emitted tiles are the positions of the
  list's tiles, in the same order.
\<close>

theorem tile_priority_order:
  "sorted (map (tileDistance (tilesX div 2) (tilesY div 2)) (sortTiles tilesX tilesY))
   \<and> (\<forall>k. filter (\<lambda>t. tileDistance (tilesX div 2) (tilesY div 2) t = k) (sortTiles tilesX tilesY)
         = filter (\<lambda>t. tileDistance (tilesX div 2) (tilesY div 2) t = k) (generateTiles tilesX tilesY))
   \<and> set (sortTiles tilesX tilesY) = set (generateTiles tilesX tilesY)
   \<and> length (sortTiles tilesX tilesY) = length (generateTiles tilesX tilesY)
   \<and> sortTiles 3 3 = [(1, 1), (1, 0), (0, 1), (2, 1), (1, 2), (0, 0), (2, 0), (0, 2), (2, 2)]
   \<and> hd (sortTiles 3 3) = (3 div 2, 3 div 2)
   \<and> filter (\<lambda>t. tileDistance (3 div 2) (3 div 2) t = 0) (sortTiles 3 3) = [(1, 1)]
   \<and> (0 < tileSize (quality req) \<and> 0 < tilesPerFrame (quality req)
        \<and> (\<forall>b \<in> set (timers w). requestId (request b) \<noteq> requestId req)
        \<and> length (timers w)
             + tileCount (canvasWidth req) (tileSize (quality req))
               * tileCount (canvasHeight req) (tileSize (quality req)) \<le> n
      \<longrightarrow> map (\<lambda>r. (tile_x (tile r), tile_y (tile r)))
            (snd (runWorker w (Message (Render req) # replicate n TimerFires)))
          = map (\<lambda>t. (fst t * tileSize (quality req), snd t * tileSize (quality req)))
              (sortTiles (tileCount (canvasWidth req) (tileSize (quality req)))
                         (tileCount (canvasHeight req) (tileSize (quality req)))))"
proof -
  have a: "sorted (map (tileDistance (tilesX div 2) (tilesY div 2)) (sortTiles tilesX tilesY))"
    by (simp add: sortTiles_def)
  have b: "\<forall>k. filter (\<lambda>t. tileDistance (tilesX div 2) (tilesY div 2) t = k) (sortTiles tilesX tilesY)
         = filter (\<lambda>t. tileDistance (tilesX div 2) (tilesY div 2) t = k) (generateTiles tilesX tilesY)"
    by (simp add: sortTiles_def sort_key_stable)
  have c: "set (sortTiles tilesX tilesY) = set (generateTiles tilesX tilesY)"
       "length (sortTiles tilesX tilesY) = length (generateTiles tilesX tilesY)"
    by (simp_all add: sortTiles_def)
  have d: "hd (sortTiles 3 3) = (3 div 2, 3 div 2)" by (simp add: sortTiles_3_3)
  have e: "filter (\<lambda>t. tileDistance (3 div 2) (3 div 2) t = 0) (sortTiles 3 3) = [(1, 1)]"
    by (simp add: sortTiles_3_3 tileDistance_def)
  have f: "map (\<lambda>r. (tile_x (tile r), tile_y (tile r)))
            (snd (runWorker w (Message (Render req) # replicate n TimerFires)))
          = map (\<lambda>t. (fst t * tileSize (quality req), snd t * tileSize (quality req)))
              (sortTiles (tileCount (canvasWidth req) (tileSize (quality req)))
                         (tileCount (canvasHeight req) (tileSize (quality req))))"
    if "0 < tileSize (quality req)" "0 < tilesPerFrame (quality req)"
       "\<forall>b \<in> set (timers w). requestId (request b) \<noteq> requestId req"
       "length (timers w)
             + tileCount (canvasWidth req) (tileSize (quality req))
               * tileCount (canvasHeight req) (tileSize (quality req)) \<le> n"
    using run_uncancelled_positions[of req w n] that by (simp add: initialBatch_simps)
  show ?thesis using a b c d e f sortTiles_3_3 by blast
qed

theorem tile_priority_order_witness:
  "0 < tileSize (quality (exampleRequest 6 6 2 4 1))
   \<and> 0 < tilesPerFrame (quality (exampleRequest 6 6 2 4 1))
   \<and> list_all (\<lambda>b. requestId (request b) \<noteq> requestId (exampleRequest 6 6 2 4 1))
        (timers initialWorker)
   \<and> length (timers initialWorker)
        + tileCount (canvasWidth (exampleRequest 6 6 2 4 1)) (tileSize (quality (exampleRequest 6 6 2 4 1)))
          * tileCount (canvasHeight (exampleRequest 6 6 2 4 1)) (tileSize (quality (exampleRequest 6 6 2 4 1)))
        \<le> 9
   \<and> map (\<lambda>r. (tile_x (tile r), tile_y (tile r)))
        (snd (runWorker initialWorker
               (Message (Render (exampleRequest 6 6 2 4 1)) # replicate 9 TimerFires)))
     = [(2, 2), (2, 0), (0, 2), (4, 2), (2, 4), (0, 0), (4, 0), (0, 4), (4, 4)]"
proof -
  have tc: "tileCount 6 2 = 3" by (simp add: tileCount_def)
  have h: "0 < tileSize (quality (exampleRequest 6 6 2 4 1))"
    "0 < tilesPerFrame (quality (exampleRequest 6 6 2 4 1))"
    "\<forall>b \<in> set (timers initialWorker). requestId (request b) \<noteq> requestId (exampleRequest 6 6 2 4 1)"
    "length (timers initialWorker)
        + tileCount (canvasWidth (exampleRequest 6 6 2 4 1)) (tileSize (quality (exampleRequest 6 6 2 4 1)))
          * tileCount (canvasHeight (exampleRequest 6 6 2 4 1)) (tileSize (quality (exampleRequest 6 6 2 4 1)))
        \<le> 9"
    by (simp_all add: exampleRequest_simps initialWorker_def tc)
  have l: "list_all (\<lambda>b. requestId (request b) \<noteq> requestId (exampleRequest 6 6 2 4 1))
        (timers initialWorker)"
    using h(3) by (simp only: list_all_iff)
  have "map (\<lambda>r. (tile_x (tile r), tile_y (tile r)))
        (snd (runWorker initialWorker
               (Message (Render (exampleRequest 6 6 2 4 1)) # replicate 9 TimerFires)))
     = map (\<lambda>t. (fst t * tileSize (quality (exampleRequest 6 6 2 4 1)),
                  snd t * tileSize (quality (exampleRequest 6 6 2 4 1))))
          (sortTiles (tileCount (canvasWidth (exampleRequest 6 6 2 4 1)) (tileSize (quality (exampleRequest 6 6 2 4 1))))
                     (tileCount (canvasHeight (exampleRequest 6 6 2 4 1)) (tileSize (quality (exampleRequest 6 6 2 4 1)))))"
    using h tile_priority_order[of _ _ "exampleRequest 6 6 2 4 1" initialWorker 9] by blast
  also have "\<dots> = [(2, 2), (2, 0), (0, 2), (4, 2), (2, 4), (0, 0), (4, 0), (0, 4), (4, 4)]"
    by (simp add: exampleRequest_simps tc sortTiles_3_3)
  finally show ?thesis using h(1,2,4) l by blast
qed

text \<open>
  C8, as stated, fails for the id \<open>-1\<close> and when an id is used again.  A request with id
  \<open>-1\<close> and four tiles, two tiles per batch: after the first batch the active id is \<open>-1\<close>; the
  cancel leaves it at \<open>-1\<close>, so the pending batch still passes both checks and the other
  two tiles are emitted with \<open>requestId = -1\<close>.  And after a cancel for id 5, a new render
  request that carries id 5 makes the worker emit responses with \<open>requestId = 5\<close> again.
\<close>

theorem no_tile_after_cancel_counterexample:
  "runWorker initialWorker [Message (Render (exampleRequest 8 2 2 2 (- 1)))]
     = (Some \<lparr>currentRequestId = - 1,
              timers = [(initialBatch (exampleRequest 8 2 2 2 (- 1)))
                          \<lparr>tilesComputed := 2, tileIndex := 2\<rparr>]\<rparr>,
        map (responseAt (initialBatch (exampleRequest 8 2 2 2 (- 1)))) [0, 1])
   \<and> runWorker \<lparr>currentRequestId = - 1,
                 timers = [(initialBatch (exampleRequest 8 2 2 2 (- 1)))
                             \<lparr>tilesComputed := 2, tileIndex := 2\<rparr>]\<rparr>
        [Message (Cancel (- 1)), TimerFires]
     = (Some \<lparr>currentRequestId = - 1, timers = []\<rparr>,
        map (responseAt (initialBatch (exampleRequest 8 2 2 2 (- 1)))) [2, 3])
   \<and> map resp_requestId (map (responseAt (initialBatch (exampleRequest 8 2 2 2 (- 1)))) [2, 3])
     = [- 1, - 1]
   \<and> runWorker \<lparr>currentRequestId = 5, timers = []\<rparr>
        [Message (Cancel 5), Message (Render (exampleRequest 2 2 2 2 5))]
     = (Some \<lparr>currentRequestId = 5, timers = []\<rparr>,
        map (responseAt (initialBatch (exampleRequest 2 2 2 2 5))) [0])
   \<and> map resp_requestId (map (responseAt (initialBatch (exampleRequest 2 2 2 2 5))) [0]) = [5]"
proof -
  let ?r = "exampleRequest 8 2 2 2 (- 1)"
  let ?b = "initialBatch ?r"
  let ?w1 = "\<lparr>currentRequestId = - 1, timers = [?b\<lparr>tilesComputed := 2, tileIndex := 2\<rparr>]\<rparr>"
  let ?r5 = "exampleRequest 2 2 2 2 5"
  have tc: "tileCount 8 2 = 4" "tileCount 2 2 = 1" by (simp_all add: tileCount_def)
  have u: "[0..<2] = [0, 1]" "[2..<4] = [2, 3]" "[0..<1] = [0::nat]" by (simp_all add: upt_conv_Cons)
  have s1: "workerStep initialWorker (Message (Render ?r))
      = Some (?w1, map (responseAt ?b) [0, 1])"
    by (simp add: workerStep_render exampleRequest_simps processBatch_active batchEndOf_def
        initialBatch_simps tc length_sortTiles initialWorker_def u)
  have s2: "workerStep ?w1 (Message (Cancel (- 1))) = Some (?w1, [])"
    by (simp add: workerStep_def worker_onmessage_def)
  have s3: "workerStep ?w1 TimerFires
      = Some (\<lparr>currentRequestId = - 1, timers = []\<rparr>, map (responseAt ?b) [2, 3])"
    by (simp add: workerStep_def exampleRequest_simps processBatch_active batchEndOf_def
        initialBatch_simps tc length_sortTiles responseAt_update u)
  have s4: "workerStep \<lparr>currentRequestId = 5, timers = []\<rparr> (Message (Cancel 5))
      = Some (\<lparr>currentRequestId = - 1, timers = []\<rparr>, [])"
    by (simp add: workerStep_def worker_onmessage_def)
  have s5: "workerStep \<lparr>currentRequestId = - 1, timers = []\<rparr> (Message (Render ?r5))
      = Some (\<lparr>currentRequestId = 5, timers = []\<rparr>, map (responseAt (initialBatch ?r5)) [0])"
    by (simp add: workerStep_render exampleRequest_simps processBatch_active batchEndOf_def
        initialBatch_simps tc length_sortTiles u)
  show ?thesis
    by (simp add: s1 s2 s3 s4 s5 responseAt_simps initialBatch_simps exampleRequest_simps)
qed

text \<open>
  C8, amended.  For a request id \<open>R\<close> other than \<open>-1\<close>: after the worker processes a
  \<open>CancelRequest\<close> (whatever id it names, and whatever the active id was, \<open>R\<close> included),
  no response with \<open>requestId = R\<close> is emitted during any further sequence of messages and
  timer events that contains no render request with id \<open>R\<close>.  A batch of a request with
  id \<open>R\<close> that runs after the cancel fails the check at the head of \<open>processBatch\<close> and
  posts nothing, and the check at the head of the tile loop leaves the loop at once.
\<close>

theorem no_tile_after_cancel:
  assumes "R \<noteq> - 1"
    and "\<forall>req. Message (Render req) \<in> set evs \<longrightarrow> requestId req \<noteq> R"
  shows "(\<forall>r \<in> set (snd (runWorker w (Message (Cancel c) # evs))). resp_requestId r \<noteq> R)
       \<and> (\<forall>b. requestId (request b) = R \<longrightarrow>
             processBatch (w\<lparr>currentRequestId := - 1\<rparr>) b = (w\<lparr>currentRequestId := - 1\<rparr>, [])
           \<and> (\<forall>i e. batchLoop (w\<lparr>currentRequestId := - 1\<rparr>) b i e = (b, [], i < e)))"
proof -
  have "\<forall>r \<in> set (snd (runWorker (w\<lparr>currentRequestId := - 1\<rparr>) evs)). resp_requestId r \<noteq> R"
    using assms by (intro runWorker_fence) auto
  then have 1: "\<forall>r \<in> set (snd (runWorker w (Message (Cancel c) # evs))). resp_requestId r \<noteq> R"
    by (auto simp: workerStep_def worker_onmessage_def split: prod.splits)
  show ?thesis using 1 assms(1)
    by (auto simp: processBatch_cancelled batchLoop_cancelled)
qed


theorem no_tile_after_cancel_witness:
  "(7::int) \<noteq> - 1
   \<and> list_all (\<lambda>ev. case ev of Message (Render req) \<Rightarrow> requestId req \<noteq> 7 | _ \<Rightarrow> True)
        [TimerFires, Message (Render (exampleRequest 2 2 2 2 8)), TimerFires]
   \<and> list_all (\<lambda>r. resp_requestId r \<noteq> 7)
        (snd (runWorker
            \<lparr>currentRequestId = 7,
              timers = [(initialBatch (exampleRequest 8 2 2 2 7))\<lparr>tilesComputed := 2, tileIndex := 2\<rparr>]\<rparr>
            (Message (Cancel 7) #
               [TimerFires, Message (Render (exampleRequest 2 2 2 2 8)), TimerFires])))"
proof -
  have h: "(7::int) \<noteq> - 1"
    "\<forall>req. Message (Render req) \<in> set [TimerFires, Message (Render (exampleRequest 2 2 2 2 8)), TimerFires]
          \<longrightarrow> requestId req \<noteq> 7"
    by (auto simp: exampleRequest_def)
  have l: "list_all (\<lambda>ev. case ev of Message (Render req) \<Rightarrow> requestId req \<noteq> 7 | _ \<Rightarrow> True)
        [TimerFires, Message (Render (exampleRequest 2 2 2 2 8)), TimerFires]"
    by (simp add: exampleRequest_def)
  have "\<forall>r \<in> set (snd (runWorker
            \<lparr>currentRequestId = 7,
              timers = [(initialBatch (exampleRequest 8 2 2 2 7))\<lparr>tilesComputed := 2, tileIndex := 2\<rparr>]\<rparr>
            (Message (Cancel 7) #
               [TimerFires, Message (Render (exampleRequest 2 2 2 2 8)), TimerFires]))).
         resp_requestId r \<noteq> 7"
    using no_tile_after_cancel[OF h,
        of "\<lparr>currentRequestId = 7,
              timers = [(initialBatch (exampleRequest 8 2 2 2 7))\<lparr>tilesComputed := 2, tileIndex := 2\<rparr>]\<rparr>" 7]
    by blast
  then have "list_all (\<lambda>r. resp_requestId r \<noteq> 7)
        (snd (runWorker
            \<lparr>currentRequestId = 7,
              timers = [(initialBatch (exampleRequest 8 2 2 2 7))\<lparr>tilesComputed := 2, tileIndex := 2\<rparr>]\<rparr>
            (Message (Cancel 7) #
               [TimerFires, Message (Render (exampleRequest 2 2 2 2 8)), TimerFires])))"
    by (simp only: list_all_iff)
  with h(1) l show ?thesis by blast
qed





section \<open>Properties of the compositor\<close>

lemma render_fields:
  "overscanViewport (render st) = Some (viewport st)"
  "viewport (render st) = viewport st"
  "isInteracting (render st) = isInteracting st"
  "r_currentRequestId (render st) = r_currentRequestId st + 1"
  "canvas_width (render st) = canvas_width st"
  "canvas_height (render st) = canvas_height st"
  "overscan_width (render st) = nat \<lfloor>real (canvas_width st) * 1.5\<rfloor>"
  "overscan_height (render st) = nat \<lfloor>real (canvas_height st) * 1.5\<rfloor>"
  "mainCanvasCrops (render st) = mainCanvasCrops st"
  "map (\<lambda>m. case m of Render rq \<Rightarrow> requestId rq | Cancel c \<Rightarrow> c) (posted (render st))
     = map (\<lambda>m. case m of Render rq \<Rightarrow> requestId rq | Cancel c \<Rightarrow> c) (posted st)
         @ [r_currentRequestId st, r_currentRequestId st + 1]"
  by (simp_all add: render_def Let_def)

lemma needsRerender_Some:
  assumes "overscanViewport st = Some ov" "viewport st = v"
  shows "needsRerender st \<longleftrightarrow>
       fgt (Math_abs (fsub (zoom v) (zoom ov))) (fmul (zoom v) (ofReal (1 / 100)))
     \<or> fgt (Math_abs (fsub (centerX v) (centerX ov))) (fmul (fdiv (Fin 4) (zoom v)) (ofReal (1 / 5)))
     \<or> fgt (Math_abs (fsub (centerY v) (centerY ov))) (fmul (fdiv (Fin 4) (zoom v)) (ofReal (1 / 5)))"
  using assms by (auto simp: needsRerender_def Let_def)

text \<open>
  The tests of \<open>needsRerender\<close> fail, and \<open>pan\<close> takes the cheap path, when the renderer
  is not in interaction mode.
\<close>

lemma pan_cheap_path_computed:
  assumes "\<not> isInteracting st" and "overscanViewport st = Some ov"
    and "\<not> fgt (Math_abs (fsub (zoom (panViewport st dx dy)) (zoom ov)))
               (fmul (zoom (panViewport st dx dy)) (ofReal (1 / 100)))"
    and "\<not> fgt (Math_abs (fsub (centerX (panViewport st dx dy)) (centerX ov)))
               (fmul (fdiv (Fin 4) (zoom (panViewport st dx dy))) (ofReal (1 / 5)))"
    and "\<not> fgt (Math_abs (fsub (centerY (panViewport st dx dy)) (centerY ov)))
               (fmul (fdiv (Fin 4) (zoom (panViewport st dx dy))) (ofReal (1 / 5)))"
  shows "pan st dx dy
       = st\<lparr>viewport := panViewport st dx dy,
             mainCanvasCrops := mainCanvasCrops st @
               [((real (overscan_width st) - real (canvas_width st)) / 2,
                 (real (overscan_height st) - real (canvas_height st)) / 2,
                 canvas_width st, canvas_height st)]\<rparr>"
proof -
  have "\<not> needsRerender (st\<lparr>viewport := panViewport st dx dy\<rparr>)"
    using assms by (simp add: needsRerender_def Let_def)
  then show ?thesis
    using assms(1,2) by (simp add: pan_def Let_def updateMainCanvas_def)
qed

text \<open>
  C3, as stated, fails.  While the renderer is in interaction mode, \<open>pan\<close> always calls
  \<open>render\<close>: after \<open>startInteraction\<close>, a pan by \<open>(0, 0)\<close>, which leaves the viewport equal to
  the viewport of the overscan buffer, raises the request counter from 1 to 2 and posts
  a cancel and a render message.  And outside interaction mode the tests are computed
  in double arithmetic: on a 512 by 512 canvas at zoom 249 with the centre
  \<open>(0, -5 * 2\<^sup>-\<^sup>6\<^sup>4)\<close>, a pan by \<open>(0, 102.40000000000002)\<close> pixels moves the centre by less
  than 20% of the visible scale \<open>4 / 249\<close> and leaves the zoom as it is, but the computed
  distance is one unit in the last place above the computed threshold
  \<open>(4 / 249) * 0.2\<close>, which the two roundings have lowered: \<open>needsRerender\<close> is true and
  \<open>pan\<close> posts a cancel and a render message.
\<close>

theorem pan_cheap_path_counterexample:
  "overscanViewport (startInteraction (render (constructor 800 600 standardViewport standardParams)))
     = Some standardViewport
   \<and> panViewport (startInteraction (render (constructor 800 600 standardViewport standardParams)))
        (Fin 0) (Fin 0)
     = standardViewport
   \<and> r_currentRequestId (startInteraction (render (constructor 800 600 standardViewport standardParams)))
     = 1
   \<and> r_currentRequestId
       (pan (startInteraction (render (constructor 800 600 standardViewport standardParams)))
          (Fin 0) (Fin 0))
     = 2
   \<and> posted (pan (startInteraction (render (constructor 800 600 standardViewport standardParams)))
        (Fin 0) (Fin 0))
     = posted (startInteraction (render (constructor 800 600 standardViewport standardParams)))
       @ [Cancel 1,
          Render \<lparr>canvasWidth = 1200, canvasHeight = 900, req_viewport = standardViewport,
                  req_params = standardParams,
                  quality = \<lparr>maxIterations = 64, tileSize = 64, tilesPerFrame = 8\<rparr>,
                  requestId = 2, storeIterations = Some True\<rparr>]
   \<and> (let v0 = \<lparr>centerX = Fin 0, centerY = Fin (- 5 / 18446744073709551616), zoom = Fin 249\<rparr>;
           st = render (constructor 512 512 v0 standardParams);
           v1 = panViewport st (Fin 0) (Fin (7205759403792795 / 70368744177664))
       in \<not> isInteracting st
        \<and> overscanViewport st = Some v0
        \<and> v1 = \<lparr>centerX = Fin 0, centerY = Fin (463020684581063 / 144115188075855872), zoom = Fin 249\<rparr>
        \<and> \<bar>(249::real) - 249\<bar> \<le> 249 * (1 / 100)
        \<and> \<bar>(0::real) - 0\<bar> \<le> 4 / 249 * (1 / 5)
        \<and> \<bar>(463020684581063 / 144115188075855872) - (- 5 / 18446744073709551616)\<bar> \<le> (4::real) / 249 * (1 / 5)
        \<and> needsRerender (st\<lparr>viewport := v1\<rparr>)
        \<and> r_currentRequestId st = 1
        \<and> r_currentRequestId (pan st (Fin 0) (Fin (7205759403792795 / 70368744177664))) = 2
        \<and> map (\<lambda>m. case m of Render rq \<Rightarrow> requestId rq | Cancel c \<Rightarrow> c)
              (posted (pan st (Fin 0) (Fin (7205759403792795 / 70368744177664))))
            = [0, 1, 1, 2])"
proof -
  let ?si = "startInteraction (render (constructor 800 600 standardViewport standardParams))"
  have "round64 (4 / 3) \<le> 2 ^ 1" by (rule round64_le_power2) simp
  then have "round64 (4 / 3) < 2 ^ 1024" by simp
  then have asp: "ofReal (4 / 3) = Fin (round64 (4 / 3))" by (intro ofReal_nonneg) simp_all
  have aspn: "0 \<le> round64 (4 / 3)" by (rule round64_nonneg) simp
  have pv: "panViewport ?si (Fin 0) (Fin 0) = standardViewport"
    using aspn
    by (simp add: panViewport_def startInteraction_def render_fields constructor_def
        standardViewport_def Let_def ofNat_def fdiv_Fin fmul_Fin fsub_Fin fadd_Fin
        signedZero_def asp)
  have a: "overscanViewport ?si = Some standardViewport" "r_currentRequestId ?si = 1"
    by (simp_all add: startInteraction_def render_fields constructor_def)
  have ii: "isInteracting ?si" by (simp add: startInteraction_def)
  have b: "pan ?si (Fin 0) (Fin 0) = render (?si\<lparr>viewport := standardViewport\<rparr>)"
    by (simp add: pan_def Let_def pv ii)
  have c: "r_currentRequestId (pan ?si (Fin 0) (Fin 0)) = 2"
    unfolding b by (simp add: render_fields startInteraction_def constructor_def)
  have d: "posted (pan ?si (Fin 0) (Fin 0))
     = posted ?si
       @ [Cancel 1,
          Render \<lparr>canvasWidth = 1200, canvasHeight = 900, req_viewport = standardViewport,
                  req_params = standardParams,
                  quality = \<lparr>maxIterations = 64, tileSize = 64, tilesPerFrame = 8\<rparr>,
                  requestId = 2, storeIterations = Some True\<rparr>]"
    unfolding b
    by (simp add: render_def Let_def startInteraction_def constructor_def)
  let ?v0 = "\<lparr>centerX = Fin 0, centerY = Fin (- 5 / 18446744073709551616), zoom = Fin 249\<rparr>"
  let ?st = "render (constructor 512 512 ?v0 standardParams)"
  let ?v1 = "\<lparr>centerX = Fin 0, centerY = Fin (463020684581063 / 144115188075855872), zoom = Fin 249\<rparr>"
  have d1: "fdiv (Fin (7205759403792795 / 70368744177664)) (Fin 512) = Fin (7205759403792795 / 36028797018963968)"
    by (simp add: fdiv_Fin, subst ofReal_eval[of "- 3"],
        simp_all add: roundEven_def Let_def power_int_minus)
  have sc: "fdiv (Fin 4) (Fin 249) = Fin (2315103422905315 / 144115188075855872)"
    by (simp add: fdiv_Fin, subst ofReal_eval[of "- 6"],
        simp_all add: roundEven_def Let_def power_int_minus)
  have m: "fmul (Fin (7205759403792795 / 36028797018963968)) (Fin (2315103422905315 / 144115188075855872)) = Fin (7408330953297009 / 2305843009213693952)"
    by (simp add: fmul_Fin, subst ofReal_eval[of "- 9"],
        simp_all add: roundEven_def Let_def power_int_minus)
  have cy: "fadd (Fin (- 5 / 18446744073709551616)) (Fin (7408330953297009 / 2305843009213693952)) = Fin (463020684581063 / 144115188075855872)"
    by (simp add: fadd_Fin, subst ofReal_eval[of "- 9"],
        simp_all add: roundEven_def Let_def power_int_minus)
  have x1: "fdiv (Fin 0) (Fin 512) = Fin 0"
    by (simp add: fdiv_Fin signedZero_def)
  have x2: "fmul (Fin 0) (Fin (2315103422905315 / 144115188075855872)) = Fin 0"
    by (simp add: fmul_Fin signedZero_def)
  have asp: "fdiv (Fin 512) (Fin 512) = Fin 1"
    by (simp add: fdiv_Fin)
  have x3: "fmul (Fin 0) (Fin 1) = Fin 0"
    by (simp add: fmul_Fin signedZero_def)
  have x4: "fsub (Fin 0) (Fin 0) = Fin 0"
    by (simp add: fsub_Fin)
  have z1: "fsub (Fin 249) (Fin 249) = Fin 0"
    by (simp add: fsub_Fin)
  have c001: "ofReal (1 / 100) = Fin (5764607523034235 / 576460752303423488)"
    by (subst ofReal_eval[of "- 7"], simp_all add: roundEven_def Let_def power_int_minus)
  have zt: "fmul (Fin 249) (Fin (5764607523034235 / 576460752303423488)) = Fin (1401745384019067 / 562949953421312)"
    by (simp add: fmul_Fin, subst ofReal_eval[of 1],
        simp_all add: roundEven_def Let_def power_int_minus)
  have dyd: "fsub (Fin (463020684581063 / 144115188075855872)) (Fin (- 5 / 18446744073709551616)) = Fin (7408330953297009 / 2305843009213693952)"
    by (simp add: fsub_Fin, subst ofReal_eval[of "- 9"],
        simp_all add: roundEven_def Let_def power_int_minus)
  have c5: "ofReal (1 / 5) = Fin (3602879701896397 / 18014398509481984)"
    by (subst ofReal_eval[of "- 3"], simp_all add: roundEven_def Let_def power_int_minus)
  have thr: "fmul (Fin (2315103422905315 / 144115188075855872)) (Fin (3602879701896397 / 18014398509481984)) = Fin (463020684581063 / 144115188075855872)"
    by (simp add: fmul_Fin, subst ofReal_eval[of "- 9"],
        simp_all add: roundEven_def Let_def power_int_minus)
  have f: "canvas_width ?st = 512" "canvas_height ?st = 512" "viewport ?st = ?v0"
    "overscanViewport ?st = Some ?v0" "\<not> isInteracting ?st" "r_currentRequestId ?st = 1"
    by (simp_all add: render_fields constructor_def)
  have p: "panViewport ?st (Fin 0) (Fin (7205759403792795 / 70368744177664)) = ?v1"
    unfolding panViewport_def Let_def f ofNat_def of_nat_numeral
    unfolding Viewport.simps d1 sc m cy x1 x2 asp x3 x4
    by simp
  have n: "needsRerender (?st\<lparr>viewport := ?v1\<rparr>)"
  proof -
    have o: "overscanViewport (?st\<lparr>viewport := ?v1\<rparr>) = Some ?v0" using f(4) by simp
    have v: "viewport (?st\<lparr>viewport := ?v1\<rparr>) = ?v1" by simp
    have "fgt (Math_abs (fsub (centerY ?v1) (centerY ?v0)))
            (fmul (fdiv (Fin 4) (zoom ?v1)) (ofReal (1 / 5)))"
      unfolding Viewport.select_convs sc c5 thr dyd by simp
    then show ?thesis unfolding needsRerender_Some[OF o v] by blast
  qed
  have e: "pan ?st (Fin 0) (Fin (7205759403792795 / 70368744177664)) = render (?st\<lparr>viewport := ?v1\<rparr>)"
    unfolding pan_def Let_def p using n f(5) by simp
  have g: "r_currentRequestId (pan ?st (Fin 0) (Fin (7205759403792795 / 70368744177664))) = 2"
    unfolding e by (simp add: render_fields constructor_def)
  have h: "map (\<lambda>m. case m of Render rq \<Rightarrow> requestId rq | Cancel c \<Rightarrow> c)
              (posted (pan ?st (Fin 0) (Fin (7205759403792795 / 70368744177664))))
            = [0, 1, 1, 2]"
    unfolding e by (simp add: render_fields constructor_def)
  have i: "\<bar>(249::real) - 249\<bar> \<le> 249 * (1 / 100)" "\<bar>(0::real) - 0\<bar> \<le> 4 / 249 * (1 / 5)"
    "\<bar>(463020684581063 / 144115188075855872) - (- 5 / 18446744073709551616)\<bar> \<le> (4::real) / 249 * (1 / 5)"
    by simp_all
  show ?thesis
    unfolding Let_def p
    using a pv c d f(4,5,6) n g h i by blast
qed

text \<open>
  C3, amended.  While the renderer is not in interaction mode, for finite viewports
  with a zoom between \<open>2\<^sup>-\<^sup>1\<^sup>0\<^sup>0\<^sup>0\<close> and \<open>2\<^sup>1\<^sup>0\<^sup>0\<^sup>0\<close>: for every pan for which the new
  viewport's zoom differs from the zoom of the overscan buffer's viewport by at most 1%
  and each coordinate of its centre differs from the overscan centre by at most 20% of
  the visible scale \<open>4 / zoom\<close>, less one part in \<open>2\<^sup>5\<^sup>3\<close>, no message is posted to the
  worker and the request counter is unchanged; \<open>pan\<close> changes the viewport, copies
  the crop of the overscan buffer to the visible canvas and does nothing else.
\<close>

theorem pan_cheap_path:
  assumes "\<not> isInteracting st" and "overscanViewport st = Some ov"
    and "isFinite (centerX (panViewport st dx dy))" and "isFinite (centerY (panViewport st dx dy))"
    and "isFinite (zoom (panViewport st dx dy))"
    and "isFinite (centerX ov)" and "isFinite (centerY ov)" and "isFinite (zoom ov)"
    and "1 / 2 ^ 1000 \<le> val (zoom (panViewport st dx dy))"
    and "val (zoom (panViewport st dx dy)) \<le> 2 ^ 1000"
    and "\<bar>val (zoom (panViewport st dx dy)) - val (zoom ov)\<bar>
           \<le> val (zoom (panViewport st dx dy)) * (1 / 100)"
    and "\<bar>val (centerX (panViewport st dx dy)) - val (centerX ov)\<bar>
           \<le> 4 / val (zoom (panViewport st dx dy)) * (1 / 5) * (1 - 1 / 2 ^ 53)"
    and "\<bar>val (centerY (panViewport st dx dy)) - val (centerY ov)\<bar>
           \<le> 4 / val (zoom (panViewport st dx dy)) * (1 / 5) * (1 - 1 / 2 ^ 53)"
  shows "pan st dx dy
         = st\<lparr>viewport := panViewport st dx dy,
               mainCanvasCrops := mainCanvasCrops st @
                 [((real (overscan_width st) - real (canvas_width st)) / 2,
                   (real (overscan_height st) - real (canvas_height st)) / 2,
                   canvas_width st, canvas_height st)]\<rparr>
       \<and> posted (pan st dx dy) = posted st
       \<and> r_currentRequestId (pan st dx dy) = r_currentRequestId st"
proof -
  have zp: "0 \<le> val (zoom (panViewport st dx dy))"
    using assms(9) by (smt (verit) divide_pos_pos zero_less_power)
  have t1: "\<not> fgt (Math_abs (fsub (zoom (panViewport st dx dy)) (zoom ov)))
               (fmul (zoom (panViewport st dx dy)) (ofReal (1 / 100)))"
    by (rule zoom_test_exact[OF assms(5,8) zp assms(10,11)])
  have t2: "\<not> fgt (Math_abs (fsub (centerX (panViewport st dx dy)) (centerX ov)))
               (fmul (fdiv (Fin 4) (zoom (panViewport st dx dy))) (ofReal (1 / 5)))"
    by (rule pan_test_exact[OF assms(3,6,5,9,10,12)])
  have t3: "\<not> fgt (Math_abs (fsub (centerY (panViewport st dx dy)) (centerY ov)))
               (fmul (fdiv (Fin 4) (zoom (panViewport st dx dy))) (ofReal (1 / 5)))"
    by (rule pan_test_exact[OF assms(4,7,5,9,10,13)])
  have e: "pan st dx dy
         = st\<lparr>viewport := panViewport st dx dy,
               mainCanvasCrops := mainCanvasCrops st @
                 [((real (overscan_width st) - real (canvas_width st)) / 2,
                   (real (overscan_height st) - real (canvas_height st)) / 2,
                   canvas_width st, canvas_height st)]\<rparr>"
    by (rule pan_cheap_path_computed[OF assms(1,2) t1 t2 t3])
  show ?thesis unfolding e by simp
qed

theorem pan_cheap_path_witness:
  "(let st = render (constructor 512 512 standardViewport standardParams);
        v1 = panViewport st (Fin 64) (Fin 0)
    in \<not> isInteracting st
     \<and> overscanViewport st = Some standardViewport
     \<and> v1 = \<lparr>centerX = Fin (- 1 / 2), centerY = Fin 0, zoom = Fin 1\<rparr>
     \<and> isFinite (centerX v1) \<and> isFinite (centerY v1) \<and> isFinite (zoom v1)
     \<and> isFinite (centerX standardViewport) \<and> isFinite (centerY standardViewport)
     \<and> isFinite (zoom standardViewport)
     \<and> 1 / 2 ^ 1000 \<le> val (zoom v1) \<and> val (zoom v1) \<le> 2 ^ 1000
     \<and> \<bar>val (zoom v1) - val (zoom standardViewport)\<bar> \<le> val (zoom v1) * (1 / 100)
     \<and> \<bar>val (centerX v1) - val (centerX standardViewport)\<bar>
          \<le> 4 / val (zoom v1) * (1 / 5) * (1 - 1 / 2 ^ 53)
     \<and> \<bar>val (centerY v1) - val (centerY standardViewport)\<bar>
          \<le> 4 / val (zoom v1) * (1 / 5) * (1 - 1 / 2 ^ 53)
     \<and> pan st (Fin 64) (Fin 0)
         = st\<lparr>viewport := v1, mainCanvasCrops := [(128, 128, 512, 512)]\<rparr>
     \<and> posted (pan st (Fin 64) (Fin 0)) = posted st
     \<and> r_currentRequestId (pan st (Fin 64) (Fin 0)) = r_currentRequestId st)"
proof -
  let ?st = "render (constructor 512 512 standardViewport standardParams)"
  let ?v1 = "\<lparr>centerX = Fin (- 1 / 2), centerY = Fin 0, zoom = Fin 1\<rparr>"
  have d1: "fdiv (Fin 64) (Fin 512) = Fin (1 / 8)"
    by (simp add: fdiv_Fin, subst ofReal_eval[of "- 3"],
        simp_all add: roundEven_def Let_def power_int_minus)
  have sc: "fdiv (Fin 4) (Fin 1) = Fin 4"
    by (simp add: fdiv_Fin)
  have m: "fmul (Fin (1 / 8)) (Fin 4) = Fin (1 / 2)"
    by (simp add: fmul_Fin, subst ofReal_eval[of "- 1"],
        simp_all add: roundEven_def Let_def power_int_minus)
  have asp: "fdiv (Fin 512) (Fin 512) = Fin 1"
    by (simp add: fdiv_Fin)
  have m2: "fmul (Fin (1 / 2)) (Fin 1) = Fin (1 / 2)"
    by (simp add: fmul_Fin, subst ofReal_eval[of "- 1"],
        simp_all add: roundEven_def Let_def power_int_minus)
  have cx: "fsub (Fin 0) (Fin (1 / 2)) = Fin (- 1 / 2)"
    by (simp add: fsub_Fin, subst ofReal_eval[of "- 1"],
        simp_all add: roundEven_def Let_def power_int_minus)
  have y1: "fdiv (Fin 0) (Fin 512) = Fin 0"
    by (simp add: fdiv_Fin signedZero_def)
  have y2: "fmul (Fin 0) (Fin 4) = Fin 0"
    by (simp add: fmul_Fin signedZero_def)
  have y3: "fadd (Fin 0) (Fin 0) = Fin 0"
    by (simp add: fadd_Fin)
  have f: "canvas_width ?st = 512" "canvas_height ?st = 512" "viewport ?st = standardViewport"
    "overscanViewport ?st = Some standardViewport" "\<not> isInteracting ?st"
    "overscan_width ?st = 768" "overscan_height ?st = 768" "mainCanvasCrops ?st = []"
    by (simp_all add: render_fields constructor_def)
  have p: "panViewport ?st (Fin 64) (Fin 0) = ?v1"
    unfolding panViewport_def Let_def f ofNat_def of_nat_numeral
    unfolding standardViewport_def Viewport.simps d1 sc m asp m2 cx y1 y2 y3
    by simp
  have h: "isFinite (centerX (panViewport ?st (Fin 64) (Fin 0)))"
    "isFinite (centerY (panViewport ?st (Fin 64) (Fin 0)))"
    "isFinite (zoom (panViewport ?st (Fin 64) (Fin 0)))"
    "isFinite (centerX standardViewport)" "isFinite (centerY standardViewport)"
    "isFinite (zoom standardViewport)"
    "1 / 2 ^ 1000 \<le> val (zoom (panViewport ?st (Fin 64) (Fin 0)))"
    "val (zoom (panViewport ?st (Fin 64) (Fin 0))) \<le> 2 ^ 1000"
    "\<bar>val (zoom (panViewport ?st (Fin 64) (Fin 0))) - val (zoom standardViewport)\<bar>
       \<le> val (zoom (panViewport ?st (Fin 64) (Fin 0))) * (1 / 100)"
    "\<bar>val (centerX (panViewport ?st (Fin 64) (Fin 0))) - val (centerX standardViewport)\<bar>
       \<le> 4 / val (zoom (panViewport ?st (Fin 64) (Fin 0))) * (1 / 5) * (1 - 1 / 2 ^ 53)"
    "\<bar>val (centerY (panViewport ?st (Fin 64) (Fin 0))) - val (centerY standardViewport)\<bar>
       \<le> 4 / val (zoom (panViewport ?st (Fin 64) (Fin 0))) * (1 / 5) * (1 - 1 / 2 ^ 53)"
    unfolding p by (simp_all add: standardViewport_def)
  have r: "pan ?st (Fin 64) (Fin 0)
         = ?st\<lparr>viewport := panViewport ?st (Fin 64) (Fin 0),
               mainCanvasCrops := mainCanvasCrops ?st @
                 [((real (overscan_width ?st) - real (canvas_width ?st)) / 2,
                   (real (overscan_height ?st) - real (canvas_height ?st)) / 2,
                   canvas_width ?st, canvas_height ?st)]\<rparr>
       \<and> posted (pan ?st (Fin 64) (Fin 0)) = posted ?st
       \<and> r_currentRequestId (pan ?st (Fin 64) (Fin 0)) = r_currentRequestId ?st"
    by (rule pan_cheap_path[OF f(5,4) h])
  have r1: "pan ?st (Fin 64) (Fin 0)
         = ?st\<lparr>viewport := panViewport ?st (Fin 64) (Fin 0),
                 mainCanvasCrops := [(128, 128, 512, 512)]\<rparr>"
    using r by (simp add: f(1,2,6,7,8))
  show ?thesis
    unfolding Let_def
    using f(5,4) p h r r1 by blast
qed

lemma updateMainCanvas_fields:
  "iterationData (updateMainCanvas st) = iterationData st"
  "isInteracting (updateMainCanvas st) = isInteracting st"
  "posted (updateMainCanvas st) = posted st"
  "r_currentRequestId (updateMainCanvas st) = r_currentRequestId st"
  "overscanPut (updateMainCanvas st) = overscanPut st"
  "overscan_width (updateMainCanvas st) = overscan_width st"
  "overscan_height (updateMainCanvas st) = overscan_height st"
  "overscanViewport (updateMainCanvas st) = overscanViewport st"
  "viewport (updateMainCanvas st) = viewport st"
  by (simp_all add: updateMainCanvas_def Let_def split: option.splits)

lemma render_iterationData: "iterationData (render st) = iterationData st"
  by (simp add: render_def Let_def)

lemma saveToBackground_iterationData: "iterationData (saveToBackground st) = iterationData st"
  by (simp add: saveToBackground_def)

lemma updateParams_no_cache:
  assumes "iterationData st = None"
  shows "updateParams st p = Inr (render (st\<lparr>params := mergeParams (params st) p\<rparr>))"
  using assms by (simp add: updateParams_def Let_def split: option.splits)

lemma reachable_no_cache: "reachable st \<Longrightarrow> iterationData st = None"
proof (induction rule: reachable.induct)
  case (r_updateParams st p st')
  then show ?case by (simp add: updateParams_no_cache) (auto simp: render_iterationData)
next
  case (r_pan st dx dy)
  then show ?case by (simp add: pan_def Let_def render_iterationData updateMainCanvas_fields)
next
  case (r_zoom st factor mx my)
  then show ?case by (simp add: zoomBy_def Let_def render_iterationData)
next
  case (r_setResolution st m)
  then show ?case by (simp add: setResolution_def Let_def render_iterationData)
next
  case (r_onmessage st response)
  then show ?case
    by (simp add: renderer_onmessage_def Let_def updateMainCanvas_fields
        saveToBackground_iterationData)
qed (simp_all add: constructor_def render_iterationData resize_def startInteraction_def
       endInteraction_def saveToBackground_iterationData destroy_def)

text \<open>
  C10.  In the shipped wiring the cached iteration buffer is never filled: no response
  of the worker, in any run, carries the optional \<open>iterationData\<close> field; the compositor's
  message handler leaves the cache field as it is whatever the response carries; and so in
  every state reached from the constructor through the public operations and the
  delivery of responses, without a call of \<open>storeIterationData\<close>, the cache is absent and
  every \<open>updateParams\<close> call, one that changes only \<open>colorHue\<close> included, takes the full
  render path: it raises the request counter and posts a cancel and a render message.
\<close>

theorem iteration_cache_never_filled:
  "(\<forall>r \<in> set (snd (runWorker w evs)). resp_iterationData r = None)
   \<and> iterationData (renderer_onmessage st response) = iterationData st
   \<and> (reachable st \<longrightarrow>
        iterationData st = None
      \<and> updateParams st p = Inr (render (st\<lparr>params := mergeParams (params st) p\<rparr>))
      \<and> updateParams st (onlyColorHue h) = Inr (render (st\<lparr>params := (params st)\<lparr>colorHue := h\<rparr>\<rparr>))
      \<and> (\<forall>st'. updateParams st p = Inr st' \<longrightarrow>
            r_currentRequestId st' = r_currentRequestId st + 1
          \<and> (\<exists>rq. posted st' = posted st @ [Cancel (r_currentRequestId st), Render rq]
                  \<and> requestId rq = r_currentRequestId st + 1)))"
proof -
  have a: "\<forall>r \<in> set (snd (runWorker w evs)). resp_iterationData r = None"
    by (rule runWorker_no_iterationData)
  have b: "iterationData (renderer_onmessage st response) = iterationData st"
    by (simp add: renderer_onmessage_def Let_def updateMainCanvas_fields
        saveToBackground_iterationData)
  have m: "mergeParams (params st) (onlyColorHue h) = (params st)\<lparr>colorHue := h\<rparr>"
    by (simp add: mergeParams_def onlyColorHue_def)
  have c: "iterationData st = None
      \<and> updateParams st p = Inr (render (st\<lparr>params := mergeParams (params st) p\<rparr>))
      \<and> updateParams st (onlyColorHue h) = Inr (render (st\<lparr>params := (params st)\<lparr>colorHue := h\<rparr>\<rparr>))
      \<and> (\<forall>st'. updateParams st p = Inr st' \<longrightarrow>
            r_currentRequestId st' = r_currentRequestId st + 1
          \<and> (\<exists>rq. posted st' = posted st @ [Cancel (r_currentRequestId st), Render rq]
                  \<and> requestId rq = r_currentRequestId st + 1))"
    if r: "reachable st"
  proof -
    have n: "iterationData st = None" by (rule reachable_no_cache[OF r])
    have u: "updateParams st q = Inr (render (st\<lparr>params := mergeParams (params st) q\<rparr>))" for q
      by (rule updateParams_no_cache[OF n])
    show ?thesis using n u[of p] u[of "onlyColorHue h"] m
      by (simp add: render_def Let_def)
  qed
  show ?thesis using a b c by blast
qed

theorem iteration_cache_never_filled_witness:
  "reachable (render (constructor 800 600 standardViewport standardParams))
   \<and> iterationData (render (constructor 800 600 standardViewport standardParams)) = None
   \<and> updateParams (render (constructor 800 600 standardViewport standardParams)) (onlyColorHue 10)
      = Inr (render ((render (constructor 800 600 standardViewport standardParams))
               \<lparr>params := (params (render (constructor 800 600 standardViewport standardParams)))
                   \<lparr>colorHue := 10\<rparr>\<rparr>))"
proof -
  have h: "reachable (render (constructor 800 600 standardViewport standardParams))"
    by (intro reachable.intros)
  show ?thesis
    using h iteration_cache_never_filled[of initialWorker "[]"
        "render (constructor 800 600 standardViewport standardParams)" _ _ 10]
    by blast
qed

lemma hsvToRgb_copies: "renderer_hsvToRgb = hsvToRgb"
  by (intro ext) (simp add: renderer_hsvToRgb_def hsvToRgb_def)

lemma recolor_agrees:
  "recolorPixel interacting (colorHue ps) s = tilePixel ps (if interacting then 64 else 256) s"
  by (simp add: recolorPixel_def tilePixel_def hsvToRgb_copies Let_def)

lemma jsTrunc_unit: "0 \<le> t \<Longrightarrow> t < 1 \<Longrightarrow> jsTrunc t = 0"
  by (simp add: jsTrunc_def floor_eq_iff)

lemma recolor_red:
  fixes t :: real
  assumes "1 / 3 < t" "t < 3 / 8"
  shows "fst (renderer_hsvToRgb (jsMod (0 + t * 360) 360) 0.85 (0.5 + t * 0.5)) = 26"
proof -
  have tr: "jsTrunc t = 0" using assms by (intro jsTrunc_unit) auto
  have h: "jsMod (0 + t * 360) 360 = t * 360" by (simp add: jsMod_def tr)
  have b: "\<not> t * 360 < 60" "\<not> t * 360 < 120" "t * 360 < 180" using assms by auto
  have "fst (renderer_hsvToRgb (t * 360) 0.85 (0.5 + t * 0.5))
      = mathRound ((0 + ((0.5 + t * 0.5) - (0.5 + t * 0.5) * 0.85)) * 255)"
    using b by (simp add: renderer_hsvToRgb_def Let_def)
  also have "\<dots> = 26"
    unfolding mathRound_def using assms by (intro floor_unique) (simp_all add: algebra_simps)
  finally show ?thesis unfolding h .
qed

lemma sqrt_eighth: "1 / 3 < sqrt (1 / 8)" "sqrt (1 / 8) < 3 / 8"
proof -
  show "1 / 3 < sqrt (1 / 8)" by (rule real_less_rsqrt) (simp add: power2_eq_square)
  show "sqrt (1 / 8) < 3 / 8" by (rule real_less_lsqrt) (simp_all add: power2_eq_square)
qed

lemma recolorPixel_example: "fst (recolorPixel False 0 32) = 26"
proof -
  have "fst (renderer_hsvToRgb (jsMod (0 + sqrt (1/8) * 360) 360) 0.85 (0.5 + sqrt (1/8) * 0.5)) = 26"
    by (rule recolor_red[OF sqrt_eighth])
  then show ?thesis
    by (auto simp: recolorPixel_def Let_def clampByte_def split: prod.splits)
qed

lemma tilePixel_example: "tilePixel (standardParams\<lparr>colorHue := 0\<rparr>) 128 32 = (29, 191, 191, 255)"
proof -
  have s: "sqrt (1 / 4) = 1 / 2" by (simp add: real_sqrt_divide)
  have t: "jsTrunc (1 / 2) = 0" "jsTrunc (3 / 2) = 1" by (simp_all add: jsTrunc_def)
  have h: "jsMod 180 360 = 180" "jsMod 3 2 = 1" by (simp_all add: jsMod_def t)
  show ?thesis
    by (simp add: tilePixel_def Let_def s h hsvToRgb_def mathRound_def clampByte_def standardParams_def)
qed

lemma render_example:
  "render (constructor 2 2 standardViewport standardParams) =
     (constructor 2 2 standardViewport standardParams)
       \<lparr>r_currentRequestId := 1, overscan_width := 3, overscan_height := 3,
        overscanViewport := Some standardViewport,
        highQuality := \<lparr>maxIterations = 128, tileSize = 32, tilesPerFrame = 4\<rparr>,
        iterationDataWidth := 3, iterationDataHeight := 3,
        posted := [Cancel 0,
                   Render \<lparr>canvasWidth = 3, canvasHeight = 3, req_viewport = standardViewport,
                           req_params = standardParams,
                           quality = \<lparr>maxIterations = 128, tileSize = 32, tilesPerFrame = 4\<rparr>,
                           requestId = 1, storeIterations = Some True\<rparr>]\<rparr>"
  by (simp add: render_def constructor_def Let_def standardViewport_def fadd_Fin fmul_Fin
      signedZero_def)

text \<open>
  C1 fails on the code.  \<open>recolor\<close> colours with the fixed limits 64 and 256, while
  \<open>render\<close> sends the adaptive limit \<open>min(512, floor(128 + 32 log\<^sub>2 zoom))\<close> outside
  interaction mode.  On a 2 by 2 canvas at zoom 1 the render request carries
  \<open>maxIterations = 128\<close>; with a cache of nine values 32 stored for the 3 by 3 overscan
  buffer, \<open>updateParams\<close> with only \<open>colorHue = 0\<close> takes the recolor path (nothing is
  posted) and writes a first pixel whose red byte is 26, where \<open>computeTile\<close> with hue 0
  under \<open>maxIterations = 128\<close> writes \<open>(29, 191, 191, 255)\<close> for the same smooth value 32.
\<close>

theorem recolor_fixed_iteration_limit:
  "(let st1 = render (constructor 2 2 standardViewport standardParams);
        st2 = storeIterationData st1 (replicate 9 32)
    in map (\<lambda>m. case m of Render rq \<Rightarrow> Some (maxIterations (quality rq)) | Cancel c \<Rightarrow> None)
         (posted st1) = [None, Some 128]
     \<and> iterationData st2 = Some (replicate 9 32)
     \<and> iterationDataWidth st2 = overscan_width st2
     \<and> iterationDataHeight st2 = overscan_height st2
     \<and> (case updateParams st2 (onlyColorHue 0) of
           Inl e \<Rightarrow> False
         | Inr st3 \<Rightarrow> posted st3 = posted st2
                      \<and> map (\<lambda>t. fst (imageData t ! 0)) (overscanPut st3) = [26]))
   \<and> fst (tilePixel (standardParams\<lparr>colorHue := 0\<rparr>) 128 32) = 29"
proof -
  have nine: "[0..<9] ! 0 = 0" "(0::nat) < 9" "replicate 9 (32::real) ! 0 = 32" by simp_all
  have px: "recolorImage st 0 (replicate 9 32) ! 0 = recolorPixel (isInteracting st) 0 32"
    if "overscan_width st * overscan_height st = 9" for st
    using that by (simp add: recolorImage_def)
  show ?thesis
    unfolding Let_def render_example
    by (simp add: storeIterationData_def updateParams_def onlyColorHue_def keyCount_def
        recolor_def updateMainCanvas_fields constructor_def px recolorPixel_example
        tilePixel_example Let_def)
qed

end
